theory Spec2Isabelle
  imports Main "HOL-Library.Sublist" "HOL-Library.Multiset"
begin

section \<open>Strings and POSIX paths\<close>

text \<open>
  The commands of \<^verbatim>\<open>protobuf_distutils\<close> work on Python strings through
  \<^verbatim>\<open>str.startswith\<close>, \<^verbatim>\<open>str.partition\<close> and the functions of
  \<^verbatim>\<open>os.path\<close>. The development fixes the POSIX flavour of \<^verbatim>\<open>os.path\<close>
  (\<^verbatim>\<open>posixpath\<close>): the separator is the slash.
\<close>

definition sep :: string where
  "sep = ''/''"

text \<open>\<^verbatim>\<open>s.startswith(p)\<close>.\<close>

definition startswith :: "string \<Rightarrow> string \<Rightarrow> bool" where
  "startswith s p = prefix p s"

text \<open>\<^verbatim>\<open>s.split(c)\<close> for a separator of one character: never the empty list.\<close>

fun str_split :: "char \<Rightarrow> string \<Rightarrow> string list" where
  "str_split c [] = [[]]"
| "str_split c (x # xs) =
     (if x = c then [] # str_split c xs
      else (case str_split c xs of
              [] \<Rightarrow> [[x]]
            | y # ys \<Rightarrow> (x # y) # ys))"

text \<open>\<^verbatim>\<open>s.join(comps)\<close>.\<close>

fun str_join :: "string \<Rightarrow> string list \<Rightarrow> string" where
  "str_join s [] = []"
| "str_join s [x] = x"
| "str_join s (x # y # ys) = x @ s @ str_join s (y # ys)"

text \<open>
  The loop of \<^verbatim>\<open>posixpath.normpath\<close> over the components of the path:
  \<^verbatim>\<open>
  for comp in comps:
      if comp in (empty, dot):
          continue
      if (comp != dotdot or (not initial_slashes and not new_comps) or
           (new_comps and new_comps[-1] == dotdot)):
          new_comps.append(comp)
      elif new_comps:
          new_comps.pop()
  \<close>
\<close>

fun norm_comps :: "nat \<Rightarrow> string list \<Rightarrow> string list \<Rightarrow> string list" where
  "norm_comps initial_slashes new_comps [] = new_comps"
| "norm_comps initial_slashes new_comps (comp' # comps) =
     (if comp' = [] \<or> comp' = ''.'' then norm_comps initial_slashes new_comps comps
      else if comp' \<noteq> ''..'' \<or> (initial_slashes = 0 \<and> new_comps = [])
              \<or> (new_comps \<noteq> [] \<and> last new_comps = ''..'')
      then norm_comps initial_slashes (new_comps @ [comp']) comps
      else if new_comps \<noteq> [] then norm_comps initial_slashes (butlast new_comps) comps
      else norm_comps initial_slashes new_comps comps)"

text \<open>\<^verbatim>\<open>posixpath.normpath\<close>: the empty path and an empty result are the dot.\<close>

definition normpath :: "string \<Rightarrow> string" where
  "normpath path =
     (if path = [] then ''.''
      else
        let initial_slashes =
              (if startswith path ''/''
               then (if startswith path ''//'' \<and> \<not> startswith path ''///'' then 2 else 1)
               else (0::nat));
            comps = norm_comps initial_slashes [] (str_split CHR ''/'' path);
            path' = replicate initial_slashes CHR ''/'' @ str_join ''/'' comps
        in if path' = [] then ''.'' else path')"

text \<open>
  \<^verbatim>\<open>s.partition(sep)\<close> for a non-empty separator: the part before its first
  occurrence, the separator, and the part after it; without an occurrence the string
  itself and two empty strings. (Python raises \<^verbatim>\<open>ValueError\<close> on an empty separator;
  the commands only split at \<^verbatim>\<open>'='\<close> and at a root followed by the slash.)
\<close>

fun str_partition :: "string \<Rightarrow> string \<Rightarrow> string \<times> string \<times> string" where
  "str_partition [] sp = ([], [], [])"
| "str_partition (c # cs) sp =
     (if prefix sp (c # cs) then ([], sp, drop (length sp) (c # cs))
      else (case str_partition cs sp of
              (before, found, after) \<Rightarrow> (c # before, found, after)))"

text \<open>
  \<^verbatim>\<open>posixpath.join\<close> for one more component (with more components the library
  folds them from the left):
  \<^verbatim>\<open>
  if b.startswith(sep):
      path = b
  elif not path or path.endswith(sep):
      path += b
  else:
      path += sep + b
  \<close>
\<close>

definition path_join :: "string \<Rightarrow> string \<Rightarrow> string" where
  "path_join path b =
     (if startswith b sep then b
      else if path = [] \<or> suffix sep path then path @ b
      else path @ sep @ b)"

text \<open>
  \<^verbatim>\<open>posixpath.split\<close>: the head is everything up to the last slash, without its
  trailing slashes unless it consists of slashes only; the tail is the rest.
  \<^verbatim>\<open>
  i = p.rfind(sep) + 1
  head, tail = p[:i], p[i:]
  if head and head != sep*len(head):
      head = head.rstrip(sep)
  \<close>
\<close>

definition path_split :: "string \<Rightarrow> string \<times> string" where
  "path_split p =
     (let tail = rev (takeWhile (\<lambda>c. c \<noteq> CHR ''/'') (rev p));
          head = take (length p - length tail) p
      in (if head \<noteq> [] \<and> head \<noteq> replicate (length head) CHR ''/''
          then rev (dropWhile (\<lambda>c. c = CHR ''/'') (rev head))
          else head,
          tail))"

section \<open>The file system and \<^verbatim>\<open>glob\<close>\<close>

text \<open>
  What the commands ask the operating system: \<^verbatim>\<open>os.path.isdir\<close>,
  \<^verbatim>\<open>os.path.exists\<close>, \<^verbatim>\<open>os.path.lexists\<close>, and the entry names of
  \<^verbatim>\<open>os.scandir\<close> (\<open>None\<close> when it raises \<^verbatim>\<open>OSError\<close>). The answers are
  functions of the path as it is written.
\<close>

record filesystem =
  isdir :: "string \<Rightarrow> bool"
  exists :: "string \<Rightarrow> bool"
  lexists :: "string \<Rightarrow> bool"
  scandir :: "string \<Rightarrow> string list option"

text \<open>\<^verbatim>\<open>glob.has_magic\<close>: the path holds one of the characters \<^verbatim>\<open>*?[\<close>.\<close>

definition has_magic :: "string \<Rightarrow> bool" where
  "has_magic s = list_ex (\<lambda>c. c = CHR ''*'' \<or> c = CHR ''?'' \<or> c = CHR ''['') s"

text \<open>
  \<^verbatim>\<open>glob._ishidden\<close>: the first character is a dot. (Entry names and the patterns
  that reach it are never empty.)
\<close>

definition ishidden :: "string \<Rightarrow> bool" where
  "ishidden path = (case path of [] \<Rightarrow> False | c # _ \<Rightarrow> c = CHR ''.'')"

text \<open>
  \<^verbatim>\<open>fnmatch\<close> of a name against a pattern of literal characters, \<^verbatim>\<open>*\<close> (any
  string) and \<^verbatim>\<open>?\<close> (any character). Bracket expressions are not modelled: a
  \<^verbatim>\<open>[\<close> is read as a literal character, so the model follows the library on
  patterns without \<^verbatim>\<open>[\<close>. The patterns of the commands are \<^verbatim>\<open>*.proto\<close> and
  \<^verbatim>\<open>**\<close>, behind the source directory.
\<close>

fun fnmatch :: "string \<Rightarrow> string \<Rightarrow> bool" where
  "fnmatch [] [] = True"
| "fnmatch (c # cs) [] = False"
| "fnmatch [] (p # ps) = (p = CHR ''*'' \<and> fnmatch [] ps)"
| "fnmatch (c # cs) (p # ps) =
     (if p = CHR ''*'' then fnmatch (c # cs) ps \<or> fnmatch cs (p # ps)
      else if p = CHR ''?'' then fnmatch cs ps
      else c = p \<and> fnmatch cs ps)"

text \<open>\<^verbatim>\<open>glob._join\<close>.\<close>

definition glob_join :: "string \<Rightarrow> string \<Rightarrow> string" where
  "glob_join dirname basename =
     (if dirname = [] \<or> basename = [] then (if dirname \<noteq> [] then dirname else basename)
      else path_join dirname basename)"

text \<open>
  \<^verbatim>\<open>glob._listdir\<close>: the entry names of the directory (of the current directory
  for an empty name), only the directories among them when \<open>dironly\<close>, nothing when
  the directory cannot be read.
\<close>

definition glob_listdir :: "filesystem \<Rightarrow> string \<Rightarrow> bool \<Rightarrow> string list" where
  "glob_listdir fs dirname dironly =
     (let arg = (if dirname \<noteq> [] then dirname else ''.'')
      in case scandir fs arg of
           None \<Rightarrow> []
         | Some names \<Rightarrow>
             filter (\<lambda>name. if dironly then isdir fs (path_join arg name) else True) names)"

text \<open>
  \<^verbatim>\<open>glob._glob1\<close>: the entries that match a pattern; hidden entries only for a
  pattern that starts with a dot.
\<close>

definition glob1 :: "filesystem \<Rightarrow> string \<Rightarrow> string \<Rightarrow> bool \<Rightarrow> string list" where
  "glob1 fs dirname pattern dironly =
     (let names = glob_listdir fs dirname dironly;
          names = (if ishidden pattern then names
                   else filter (\<lambda>x. \<not> ishidden x) names)
      in filter (\<lambda>name. fnmatch name pattern) names)"

text \<open>\<^verbatim>\<open>glob._glob0\<close>: a literal base name, checked for existence.\<close>

definition glob0 :: "filesystem \<Rightarrow> string \<Rightarrow> string \<Rightarrow> bool \<Rightarrow> string list" where
  "glob0 fs dirname basename dironly =
     (if basename \<noteq> []
      then (if lexists fs (glob_join dirname basename) then [basename] else [])
      else (if isdir fs dirname then [basename] else []))"

lemma path_split_prefix: "prefix (fst (path_split p)) p"
proof -
  let ?tail = "rev (takeWhile (\<lambda>c. c \<noteq> CHR ''/'') (rev p))"
  let ?head = "take (length p - length ?tail) p"
  have "prefix (rev (dropWhile (\<lambda>c. c = CHR ''/'') (rev ?head))) ?head"
    by (metis prefixI rev_append rev_rev_ident takeWhile_dropWhile_id)
  moreover have "prefix ?head p" by (rule take_is_prefix)
  ultimately show ?thesis
    by (auto simp: path_split_def Let_def intro: prefix_order.trans)
qed

lemma path_split_shorter:
  "fst (path_split p) \<noteq> p \<Longrightarrow> length (fst (path_split p)) < length p"
  using path_split_prefix [of p]
  by (metis le_neq_implies_less prefix_length_le prefix_order.eq_iff prefix_length_prefix
      prefix_order.order_refl)

text \<open>
  \<^verbatim>\<open>glob._iglob\<close> as \<^verbatim>\<open>glob.glob(pathname)\<close> runs it: \<^verbatim>\<open>recursive\<close> is false
  and \<^verbatim>\<open>root_dir\<close> is the empty string. In a pattern without the \<^verbatim>\<open>recursive\<close>
  flag, \<^verbatim>\<open>**\<close> is an ordinary pattern for \<^verbatim>\<open>_glob1\<close>.
  \<^verbatim>\<open>
  dirname, basename = os.path.split(pathname)
  if not has_magic(pathname):
      if basename:
          if _lexists(_join(root_dir, pathname), dir_fd): yield pathname
      else:
          if _isdir(_join(root_dir, dirname), dir_fd): yield pathname
      return
  if not dirname:
      yield from _glob1(root_dir, basename, dir_fd, dironly)
      return
  if dirname != pathname and has_magic(dirname):
      dirs = _iglob(dirname, root_dir, dir_fd, recursive, True)
  else:
      dirs = [dirname]
  if has_magic(basename):
      glob_in_dir = _glob1
  else:
      glob_in_dir = _glob0
  for dirname in dirs:
      for name in glob_in_dir(_join(root_dir, dirname), basename, dir_fd, dironly):
          yield os.path.join(dirname, name)
  \<close>
\<close>

function iglob :: "filesystem \<Rightarrow> string \<Rightarrow> bool \<Rightarrow> string list" where
  "iglob fs pathname dironly =
     (if \<not> has_magic pathname
      then (if snd (path_split pathname) \<noteq> []
            then (if lexists fs pathname then [pathname] else [])
            else (if isdir fs (fst (path_split pathname)) then [pathname] else []))
      else if fst (path_split pathname) = []
      then glob1 fs [] (snd (path_split pathname)) dironly
      else
        concat (map
          (\<lambda>dirname.
             map (path_join dirname)
               ((if has_magic (snd (path_split pathname)) then glob1 else glob0)
                  fs dirname (snd (path_split pathname)) dironly))
          (if fst (path_split pathname) \<noteq> pathname \<and> has_magic (fst (path_split pathname))
           then iglob fs (fst (path_split pathname)) True
           else [fst (path_split pathname)])))"
  by pat_completeness auto
termination
  by (relation "measure (\<lambda>(fs, pathname, dironly). length pathname)")
    (auto simp: path_split_shorter)

declare iglob.simps [simp del]

text \<open>
  \<^verbatim>\<open>glob.glob(pathname)\<close>; for the empty pattern the library drops an empty first
  result.
\<close>

definition glob :: "filesystem \<Rightarrow> string \<Rightarrow> string list" where
  "glob fs pathname =
     (if pathname = []
      then (case iglob fs pathname False of
              [] \<Rightarrow> []
            | s # it \<Rightarrow> if s \<noteq> [] then s # it else it)
      else iglob fs pathname False)"

section \<open>The command object\<close>

text \<open>
  The options of \<^verbatim>\<open>ProtocCommandBase\<close>, as \<^verbatim>\<open>initialize_options\<close> declares
  them. An option that may be \<^verbatim>\<open>None\<close> is an \<open>option\<close>. The list options hold
  lists of strings, the form \<^verbatim>\<open>ensure_string_list\<close> leaves unchanged.
\<close>

record command =
  source_dir :: "string option"
  output_dir :: string
  proto_root_path :: "string option"
  include_dirs :: "string list option"
  proto_paths :: "string list"
  extra_proto_paths :: "string list"
  proto_files :: "string list option"
  recurse :: "bool option"
  protoc :: "string option"

text \<open>
  The exceptions the commands can end with. \<open>DistutilsOptionError\<close> carries the
  arguments it is raised with: the message and, for an invalid search path, the list
  of offending entries.
\<close>

datatype error =
    DistutilsOptionError string "string list"
  | TypeError
  | AttributeError

subsection \<open>\<^verbatim>\<open>compute_proto_root_path\<close>\<close>

text \<open>
  One round of the loop over the candidates: the candidate is normalised and replaces
  the current root when the current root starts with it.
\<close>

definition root_step :: "string \<Rightarrow> string \<Rightarrow> string" where
  "root_step root root_candidate =
     (let root_candidate = normpath root_candidate
      in if startswith root root_candidate then root_candidate else root)"

text \<open>
  \<^verbatim>\<open>os.path.normpath(None)\<close> raises \<open>TypeError\<close>; otherwise the loop runs over
  \<^verbatim>\<open>self.proto_paths + self.extra_proto_paths\<close> from the normalised source directory.
\<close>

definition compute_proto_root_path :: "command \<Rightarrow> error + string" where
  "compute_proto_root_path self =
     (case source_dir self of
        None \<Rightarrow> Inl TypeError
      | Some s \<Rightarrow>
          Inr (foldl root_step (normpath s) (proto_paths self @ extra_proto_paths self)))"

subsection \<open>The build framework\<close>

text \<open>
  What the commands read from their surroundings: the \<^verbatim>\<open>include_dirs\<close> of the
  finalized \<^verbatim>\<open>build_ext\<close> command (read by \<^verbatim>\<open>set_undefined_options\<close>), the
  process environment (\<^verbatim>\<open>os.getenv\<close>) and \<^verbatim>\<open>spawn.find_executable\<close>.
\<close>

record environment =
  build_ext_include_dirs :: "string list option"
  getenv :: "string \<Rightarrow> string option"
  find_executable :: "string \<Rightarrow> string option"

text \<open>What \<^verbatim>\<open>announce\<close> and \<^verbatim>\<open>warn\<close> hand to the log; neither ends the run.\<close>

datatype message = Announce string | Warn string

text \<open>Sequencing of steps that may raise: the first exception ends the run.\<close>

definition and_then :: "error + 'a \<Rightarrow> ('a \<Rightarrow> error + 'b) \<Rightarrow> error + 'b" where
  "and_then m f = (case m of Inl e \<Rightarrow> Inl e | Inr x \<Rightarrow> f x)"

definition initialize_options :: command where
  "initialize_options =
     \<lparr>source_dir = None, output_dir = ''.'', proto_root_path = None, include_dirs = None,
      proto_paths = [], extra_proto_paths = [], proto_files = None, recurse = None,
      protoc = None\<rparr>"

text \<open>
  \<^verbatim>\<open>self.set_undefined_options('build_ext', ('include_dirs', 'include_dirs'))\<close>: an
  \<^verbatim>\<open>include_dirs\<close> that is still \<^verbatim>\<open>None\<close> is taken from \<^verbatim>\<open>build_ext\<close>.
\<close>

definition set_undefined_options :: "environment \<Rightarrow> command \<Rightarrow> command" where
  "set_undefined_options env self =
     (case include_dirs self of
        None \<Rightarrow> self\<lparr>include_dirs := build_ext_include_dirs env\<rparr>
      | Some _ \<Rightarrow> self)"

text \<open>
  \<^verbatim>\<open>Command.ensure_dirname(option)\<close> on the value of the option: \<^verbatim>\<open>None\<close>
  passes, a string must name a directory.
\<close>

definition ensure_dirname :: "filesystem \<Rightarrow> string \<Rightarrow> string option \<Rightarrow> error + unit" where
  "ensure_dirname fs option val =
     (case val of
        None \<Rightarrow> Inr ()
      | Some v \<Rightarrow>
          if isdir fs v then Inr ()
          else Inl (DistutilsOptionError
                 (''error in '' @ [CHR 0x27] @ option @ [CHR 0x27] @ '' option: ''
                    @ [CHR 0x27] @ v @ [CHR 0x27] @ '' does not exist or is not a directory'')
                 []))"

text \<open>
  \<^verbatim>\<open>ensure_proto_path_list(option)\<close> on the value of the option, a list of strings
  (on which \<^verbatim>\<open>ensure_string_list\<close> changes nothing):
  \<^verbatim>\<open>
  invalid_paths = []
  for proto_path in value:
      virtpath, sep, realpath = proto_path.partition('=')
      if not sep:
          if not os.path.isdir(proto_path):
              invalid_paths.append(proto_path)
      else:
          if not os.path.exists(realpath):
              invalid_paths.append(proto_path)
  if invalid_paths:
      raise DistutilsOptionError('invalid %s entry' % option, invalid_paths)
  \<close>
\<close>

definition invalid_proto_path :: "filesystem \<Rightarrow> string \<Rightarrow> bool" where
  "invalid_proto_path fs proto_path =
     (case str_partition proto_path ''='' of
        (virtpath, found, realpath) \<Rightarrow>
          if found = [] then \<not> isdir fs proto_path else \<not> exists fs realpath)"

definition ensure_proto_path_list :: "filesystem \<Rightarrow> string \<Rightarrow> string list \<Rightarrow> error + unit" where
  "ensure_proto_path_list fs option val =
     (let invalid_paths = filter (invalid_proto_path fs) val
      in if invalid_paths \<noteq> []
         then Inl (DistutilsOptionError (''invalid '' @ option @ '' entry'') invalid_paths)
         else Inr ())"

subsection \<open>\<^verbatim>\<open>find_proto_files\<close>\<close>

text \<open>
  The files the two patterns match (lines 189 to 192). \<^verbatim>\<open>os.path.join(None, ...)\<close>
  raises \<open>TypeError\<close>. The second pattern is passed to \<^verbatim>\<open>glob.glob\<close> without the
  \<^verbatim>\<open>recursive\<close> flag.
\<close>

definition glob_proto_files :: "filesystem \<Rightarrow> command \<Rightarrow> error + string list" where
  "glob_proto_files fs self =
     (case source_dir self of
        None \<Rightarrow> Inl TypeError
      | Some s \<Rightarrow>
          Inr (glob fs (path_join s ''*.proto'')
               @ (if recurse self = Some True
                  then glob fs (path_join (path_join s ''**'') ''*.proto'')
                  else [])))"

text \<open>\<^verbatim>\<open>f.partition(self.proto_root_path + os.path.sep)[-1]\<close>.\<close>

definition relative_to :: "string \<Rightarrow> string \<Rightarrow> string" where
  "relative_to root f = snd (snd (str_partition f (root @ sep)))"

text \<open>
  The comprehension of lines 195 to 198 evaluates \<^verbatim>\<open>self.proto_root_path + os.path.sep\<close>
  once per file, so a root that is \<^verbatim>\<open>None\<close> raises \<open>TypeError\<close> only when there is
  a file.
\<close>

definition find_proto_files :: "filesystem \<Rightarrow> command \<Rightarrow> error + string list" where
  "find_proto_files fs self =
     and_then (glob_proto_files fs self) (\<lambda>files.
       case proto_root_path self of
         Some root \<Rightarrow> Inr (map (relative_to root) files)
       | None \<Rightarrow> if files = [] then Inr [] else Inl TypeError)"

subsection \<open>\<^verbatim>\<open>finalize_options\<close>\<close>

text \<open>
  Lines 75 to 88: \<^verbatim>\<open>include_dirs\<close> from \<^verbatim>\<open>build_ext\<close>, the two directory checks,
  and the three search-path lists, \<^verbatim>\<open>include_dirs\<close> going in front of
  \<^verbatim>\<open>proto_paths\<close>.
\<close>

definition finalize_search_paths :: "filesystem \<Rightarrow> environment \<Rightarrow> command \<Rightarrow> error + command" where
  "finalize_search_paths fs env self0 =
     (let self = set_undefined_options env self0 in
      and_then (ensure_dirname fs ''source_dir'' (source_dir self)) (\<lambda>_.
      and_then (ensure_dirname fs ''output_dir'' (Some (output_dir self))) (\<lambda>_.
      and_then
        (case include_dirs self of
           None \<Rightarrow> Inr self
         | Some dirs \<Rightarrow>
             and_then (ensure_proto_path_list fs ''include_dirs'' dirs) (\<lambda>_.
               Inr (self\<lparr>proto_paths := dirs @ proto_paths self\<rparr>)))
        (\<lambda>self.
      and_then (ensure_proto_path_list fs ''proto_paths'' (proto_paths self)) (\<lambda>_.
      and_then (ensure_proto_path_list fs ''extra_proto_paths'' (extra_proto_paths self)) (\<lambda>_.
        Inr self))))))"

text \<open>
  Lines 90 to 95: a root that is not given is computed, and announced when it differs
  from the source directory.
\<close>

definition finalize_proto_root_path :: "command \<Rightarrow> error + command \<times> message list" where
  "finalize_proto_root_path self =
     (case proto_root_path self of
        None \<Rightarrow>
          and_then (compute_proto_root_path self) (\<lambda>root.
            Inr (self\<lparr>proto_root_path := Some root\<rparr>,
                 if Some root \<noteq> source_dir self
                 then [Announce (''using computed proto_root_path: '' @ root)]
                 else []))
      | Some _ \<Rightarrow> Inr (self, []))"

text \<open>
  Lines 97 to 105: the root is a directory and the source directory starts with it;
  \<^verbatim>\<open>recurse\<close> defaults to true. \<^verbatim>\<open>None.startswith\<close> raises
  \<open>AttributeError\<close>, \<^verbatim>\<open>s.startswith(None)\<close> raises \<open>TypeError\<close>.
\<close>

definition not_under_root_message :: "string \<Rightarrow> string \<Rightarrow> string" where
  "not_under_root_message s root =
     ''source_dir '' @ s @ '' is not under proto_root_path '' @ root"

definition check_proto_root_path :: "filesystem \<Rightarrow> command \<Rightarrow> error + command" where
  "check_proto_root_path fs self =
     and_then (ensure_dirname fs ''proto_root_path'' (proto_root_path self)) (\<lambda>_.
       case source_dir self of
         None \<Rightarrow> Inl AttributeError
       | Some s \<Rightarrow>
           (case proto_root_path self of
              None \<Rightarrow> Inl TypeError
            | Some root \<Rightarrow>
                if \<not> startswith s root
                then Inl (DistutilsOptionError (not_under_root_message s root) [])
                else Inr (if recurse self = None then self\<lparr>recurse := Some True\<rparr> else self)))"

text \<open>Lines 75 to 105 together: everything before the files are looked for.\<close>

definition validate_options ::
  "filesystem \<Rightarrow> environment \<Rightarrow> command \<Rightarrow> error + command \<times> message list" where
  "validate_options fs env self =
     and_then (finalize_search_paths fs env self) (\<lambda>self.
     and_then (finalize_proto_root_path self) (\<lambda>(self, log).
     and_then (check_proto_root_path fs self) (\<lambda>self. Inr (self, log))))"

text \<open>
  Lines 107 to 113: the files are looked for unless they are given, an empty result is
  warned about, and \<^verbatim>\<open>protoc\<close> defaults to the environment variable
  \<^verbatim>\<open>PROTOC\<close>.
\<close>

definition finalize_proto_files ::
  "filesystem \<Rightarrow> environment \<Rightarrow> command \<Rightarrow> error + command \<times> message list" where
  "finalize_proto_files fs env self =
     and_then
       (case proto_files self of
          None \<Rightarrow>
            and_then (find_proto_files fs self) (\<lambda>files.
              if files = []
              then (case source_dir self of
                      None \<Rightarrow> Inl TypeError
                    | Some s \<Rightarrow>
                        Inr (self\<lparr>proto_files := Some files\<rparr>,
                             [Warn (''no .proto files were found under '' @ s)]))
              else Inr (self\<lparr>proto_files := Some files\<rparr>, []))
        | Some _ \<Rightarrow> Inr (self, []))
       (\<lambda>(self, log).
          Inr (if protoc self = None then self\<lparr>protoc := getenv env ''PROTOC''\<rparr> else self,
               log))"

definition finalize_options ::
  "filesystem \<Rightarrow> environment \<Rightarrow> command \<Rightarrow> error + command \<times> message list" where
  "finalize_options fs env self =
     and_then (validate_options fs env self) (\<lambda>(self, log).
     and_then (finalize_proto_files fs env self) (\<lambda>(self, log'). Inr (self, log @ log')))"

subsection \<open>\<^verbatim>\<open>run_protoc\<close> and \<^verbatim>\<open>generate_py_protobufs\<close>\<close>

text \<open>
  \<^verbatim>\<open>run_protoc(args)\<close> up to the call of \<^verbatim>\<open>spawn.spawn\<close>: the result is the
  command object and the list handed to \<^verbatim>\<open>spawn.spawn\<close>, as the executable (which
  is \<^verbatim>\<open>None\<close> when none is configured or found) and the arguments after it. The
  compiler itself is not modelled. Concatenating \<^verbatim>\<open>None\<close> raises \<open>TypeError\<close>.
  \<^verbatim>\<open>
  proto_paths = ['--proto_path=' + x
                 for x in [self.proto_root_path] + (self.proto_paths or [])]
  if self.protoc is None:
      self.protoc = spawn.find_executable('protoc')
  spawn.spawn([self.protoc] + proto_paths + args + self.proto_files, search_path=0)
  \<close>
\<close>

definition run_protoc ::
  "environment \<Rightarrow> command \<Rightarrow> string list \<Rightarrow> error + command \<times> string option \<times> string list" where
  "run_protoc env self0 args =
     (case proto_root_path self0 of
        None \<Rightarrow> Inl TypeError
      | Some root \<Rightarrow>
          (let proto_paths' = map (\<lambda>x. ''--proto_path='' @ x) (root # proto_paths self0);
               self = (if protoc self0 = None
                       then self0\<lparr>protoc := find_executable env ''protoc''\<rparr>
                       else self0)
           in case proto_files self of
                None \<Rightarrow> Inl TypeError
              | Some files \<Rightarrow> Inr (self, protoc self, proto_paths' @ args @ files)))"

text \<open>\<^verbatim>\<open>generate_py_protobufs.initialize_options\<close>.\<close>

definition generate_py_protobufs_initialize_options :: command where
  "generate_py_protobufs_initialize_options =
     initialize_options\<lparr>proto_paths := [], extra_proto_paths := [], output_dir := ''.''\<rparr>"

text \<open>
  \<^verbatim>\<open>generate_py_protobufs.finalize_options\<close>: after the base class, the extra search
  paths are appended to \<^verbatim>\<open>proto_paths\<close> and the output directory is checked again.
\<close>

definition generate_py_protobufs_finalize_options ::
  "filesystem \<Rightarrow> environment \<Rightarrow> command \<Rightarrow> error + command \<times> message list" where
  "generate_py_protobufs_finalize_options fs env self =
     and_then (finalize_options fs env self) (\<lambda>(self, log).
       (let self = self\<lparr>proto_paths := proto_paths self @ extra_proto_paths self\<rparr>
        in and_then (ensure_dirname fs ''output_dir'' (Some (output_dir self))) (\<lambda>_.
             Inr (self, log))))"

text \<open>\<^verbatim>\<open>generate_py_protobufs.run\<close>.\<close>

definition generate_py_protobufs_run ::
  "environment \<Rightarrow> command \<Rightarrow> error + command \<times> string option \<times> string list" where
  "generate_py_protobufs_run env self =
     run_protoc env self [''--python_out='' @ output_dir self]"

text \<open>
  The framework runs a command by finalizing its options and then calling
  \<^verbatim>\<open>run\<close>; an exception in the first step means \<^verbatim>\<open>run\<close> is never called.
\<close>

definition run_command ::
  "filesystem \<Rightarrow> environment \<Rightarrow> command \<Rightarrow> error + command \<times> string option \<times> string list" where
  "run_command fs env self =
     and_then (generate_py_protobufs_finalize_options fs env self) (\<lambda>(self, log).
       generate_py_protobufs_run env self)"

subsection \<open>Example configurations\<close>

text \<open>
  A file system given by a table of its directories, each with the names of its
  entries; paths are looked up as they are written.
\<close>

definition fs_of_dirs :: "(string \<times> string list) list \<Rightarrow> filesystem" where
  "fs_of_dirs table =
     \<lparr>isdir = (\<lambda>p. map_of table p \<noteq> None),
      exists = (\<lambda>p. map_of table p \<noteq> None
                  \<or> list_ex (\<lambda>(d, names). list_ex (\<lambda>n. p = path_join d n) names) table),
      lexists = (\<lambda>p. map_of table p \<noteq> None
                  \<or> list_ex (\<lambda>(d, names). list_ex (\<lambda>n. p = path_join d n) names) table),
      scandir = map_of table\<rparr>"

text \<open>
  The tree of the comment in \<^verbatim>\<open>compute_proto_root_path\<close>, with
  \<^verbatim>\<open>a/b/c/d/foo.proto\<close>, one file directly in \<^verbatim>\<open>a/b/c\<close>, one two levels below
  it, and a sibling directory \<^verbatim>\<open>a/bc\<close>.
\<close>

definition example_fs :: filesystem where
  "example_fs = fs_of_dirs
     [(''.'', [''a'', ''x'']),
      (''a'', [''b'', ''bc'']),
      (''a/b'', [''c'']),
      (''a/b/c'', [''d'', ''top.proto'']),
      (''a/b/c/d'', [''foo.proto'', ''e'']),
      (''a/b/c/d/e'', [''deep.proto'']),
      (''a/bc'', [''x.proto'']),
      (''x'', [''y'']),
      (''x/y'', [])]"

definition example_env :: environment where
  "example_env =
     \<lparr>build_ext_include_dirs = None, getenv = (\<lambda>name. None),
      find_executable = (\<lambda>name. Some ''/usr/bin/protoc'')\<rparr>"

text \<open>\<^verbatim>\<open>source_dir = 'a/b/c'\<close>, \<^verbatim>\<open>proto_paths = ['a/b', 'x/y']\<close>.\<close>

definition example_command :: command where
  "example_command =
     generate_py_protobufs_initialize_options
       \<lparr>source_dir := Some ''a/b/c'', proto_paths := [''a/b'', ''x/y'']\<rparr>"

text \<open>
  A source directory whose name holds a glob character: \<^verbatim>\<open>r/a*\<close> is an empty
  directory next to \<^verbatim>\<open>r/ab\<close>, which holds a \<^verbatim>\<open>.proto\<close> file.
\<close>

definition wildcard_fs :: filesystem where
  "wildcard_fs = fs_of_dirs
     [(''.'', [''r'']),
      (''r'', [''a*'', ''ab'']),
      (''r/a*'', []),
      (''r/ab'', [''x.proto''])]"

definition wildcard_command :: command where
  "wildcard_command =
     generate_py_protobufs_initialize_options
       \<lparr>source_dir := Some ''r/a*'', proto_paths := [''r''], recurse := Some False\<rparr>"



text \<open>
  A source directory \<^verbatim>\<open>s\<close> whose only entry is a directory named
  \<^verbatim>\<open>pkg.proto\<close>.
\<close>

definition pkg_fs :: filesystem where
  "pkg_fs = fs_of_dirs
     [(''.'', [''s'']),
      (''s'', [''pkg.proto'']),
      (''s/pkg.proto'', [])]"

definition pkg_command :: command where
  "pkg_command =
     generate_py_protobufs_initialize_options
       \<lparr>source_dir := Some ''s'', proto_root_path := Some ''s'', recurse := Some False\<rparr>"

section \<open>Root-path resolution\<close>

lemma root_loop_prefix:
  "prefix r S \<Longrightarrow> prefix (foldl root_step r cs) S"
proof (induction cs arbitrary: r)
  case Nil
  then show ?case by simp
next
  case (Cons c cs)
  have "prefix (root_step r c) S"
    using Cons.prems
    by (auto simp: root_step_def startswith_def Let_def intro: prefix_order.trans)
  then show ?case using Cons.IH by simp
qed

lemma root_loop_length:
  "length (foldl root_step r cs) \<le> length r"
proof (induction cs arbitrary: r)
  case Nil
  then show ?case by simp
next
  case (Cons c cs)
  have "length (root_step r c) \<le> length r"
    by (auto simp: root_step_def startswith_def Let_def dest: prefix_length_le)
  moreover have "length (foldl root_step (root_step r c) cs) \<le> length (root_step r c)"
    by (rule Cons.IH)
  ultimately show ?case by simp
qed

lemma root_loop_member:
  "foldl root_step r cs = r \<or> foldl root_step r cs \<in> set (map normpath cs)"
proof (induction cs arbitrary: r)
  case Nil
  then show ?case by simp
next
  case (Cons c cs)
  from Cons.IH [of "root_step r c"] show ?case
    by (auto simp: root_step_def Let_def split: if_splits)
qed

lemma root_loop_shortest:
  assumes "prefix r S" and "c \<in> set cs" and "prefix (normpath c) S"
  shows "length (foldl root_step r cs) \<le> length (normpath c)"
  using assms
proof (induction cs arbitrary: r)
  case Nil
  then show ?case by simp
next
  case (Cons d ds)
  have step: "prefix (root_step r d) S"
    using root_loop_prefix [of r S "[d]"] Cons.prems(1) by simp
  show ?case
  proof (cases "c \<in> set ds")
    case True
    then show ?thesis using Cons.IH [OF step True Cons.prems(3)] by simp
  next
    case False
    then have cd: "c = d" using Cons.prems(2) by simp
    have "length (root_step r d) \<le> length (normpath d)"
    proof (cases "prefix (normpath d) r")
      case True
      then show ?thesis by (simp add: root_step_def startswith_def)
    next
      case False
      have "prefix (normpath d) r \<or> prefix r (normpath d)"
        using Cons.prems(1,3) cd prefix_same_cases by blast
      then have "prefix r (normpath d)" using False by simp
      then show ?thesis
        using False by (simp add: root_step_def startswith_def prefix_length_le)
    qed
    moreover have "length (foldl root_step (root_step r d) ds) \<le> length (root_step r d)"
      by (rule root_loop_length)
    ultimately show ?thesis using cd by simp
  qed
qed

text \<open>
  The loop started at \<open>S\<close> is characterised by the candidates that are prefixes of
  \<open>S\<close>: without one the result is \<open>S\<close>, otherwise it is one of them and no other is
  shorter.
\<close>

lemma root_loop_characterisation:
  fixes S :: string and cs :: "string list"
  shows "prefix (foldl root_step S cs) S
    \<and> (filter (\<lambda>c. prefix c S) (map normpath cs) = [] \<longrightarrow> foldl root_step S cs = S)
    \<and> (filter (\<lambda>c. prefix c S) (map normpath cs) \<noteq> [] \<longrightarrow>
         foldl root_step S cs \<in> set (filter (\<lambda>c. prefix c S) (map normpath cs))
         \<and> (\<forall>c \<in> set (filter (\<lambda>c. prefix c S) (map normpath cs)).
               length (foldl root_step S cs) \<le> length c))"
proof -
  let ?r = "foldl root_step S cs"
  let ?M = "filter (\<lambda>c. prefix c S) (map normpath cs)"
  have pre: "prefix ?r S" by (rule root_loop_prefix) simp
  have short: "\<forall>c \<in> set ?M. length ?r \<le> length c"
    using root_loop_shortest [of S S _ cs] by auto
  have mem: "?r = S \<or> ?r \<in> set (map normpath cs)" by (rule root_loop_member)
  have none: "?r = S" if "?M = []"
  proof (rule ccontr)
    assume "?r \<noteq> S"
    then have "?r \<in> set (map normpath cs)" using mem by simp
    then have "?r \<in> set ?M" using pre by simp
    then show False using that by simp
  qed
  have some: "?r \<in> set ?M" if "?M \<noteq> []"
  proof (cases "?r = S")
    case False
    then have "?r \<in> set (map normpath cs)" using mem by simp
    then show ?thesis using pre by simp
  next
    case True
    from that obtain c where c: "c \<in> set ?M" by (cases ?M) auto
    then have "length S \<le> length c" using short True by simp
    moreover have "prefix c S" using c by simp
    ultimately have "c = S"
      by (metis prefix_length_le le_antisym prefix_order.eq_iff prefix_length_prefix
          prefix_order.order_refl)
    then show ?thesis using c True by simp
  qed
  show ?thesis using pre short none some by blast
qed

lemma root_loop_set_eq:
  assumes "set cs = set cs'"
  shows "foldl root_step S cs = foldl root_step S cs'"
proof -
  let ?M = "filter (\<lambda>c. prefix c S) (map normpath cs)"
  let ?M' = "filter (\<lambda>c. prefix c S) (map normpath cs')"
  let ?r = "foldl root_step S cs"
  let ?r' = "foldl root_step S cs'"
  have sets: "set ?M = set ?M'" using assms by auto
  note ch = root_loop_characterisation [of S cs]
  note ch' = root_loop_characterisation [of S cs']
  show ?thesis
  proof (cases "?M = []")
    case True
    then have "?M' = []" using sets by (metis set_empty)
    then show ?thesis using True ch ch' by simp
  next
    case False
    then have False': "?M' \<noteq> []" using sets by (metis set_empty)
    have r: "?r \<in> set ?M" and r_min: "\<forall>c \<in> set ?M. length ?r \<le> length c"
      using ch False by blast+
    have r': "?r' \<in> set ?M'" and r'_min: "\<forall>c \<in> set ?M'. length ?r' \<le> length c"
      using ch' False' by blast+
    have "length ?r \<le> length ?r'" using r_min r' sets by blast
    moreover have "length ?r' \<le> length ?r" using r'_min r sets by blast
    ultimately have len: "length ?r = length ?r'" by simp
    have "prefix ?r S" and "prefix ?r' S" using ch ch' by blast+
    then have "prefix ?r ?r' \<or> prefix ?r' ?r" by (rule prefix_same_cases)
    then show ?thesis using len
      by (auto simp: prefix_def)
  qed
qed

text \<open>
  Claim C1. For every source directory and every list of candidate directories
  (\<open>proto_paths\<close> followed by \<open>extra_proto_paths\<close>), \<open>compute_proto_root_path\<close>
  returns the shortest normalised candidate that is a string prefix of the normalised
  source directory, and the normalised source directory itself when no candidate is
  such a prefix; the returned root is always a string prefix of the normalised source
  directory.
\<close>

theorem compute_proto_root_path_shortest_prefix:
  assumes "source_dir self = Some s"
  shows "\<exists>r. compute_proto_root_path self = Inr r
    \<and> prefix r (normpath s)
    \<and> (filter (\<lambda>c. prefix c (normpath s))
          (map normpath (proto_paths self @ extra_proto_paths self)) = [] \<longrightarrow>
        r = normpath s)
    \<and> (filter (\<lambda>c. prefix c (normpath s))
          (map normpath (proto_paths self @ extra_proto_paths self)) \<noteq> [] \<longrightarrow>
        r \<in> set (filter (\<lambda>c. prefix c (normpath s))
                  (map normpath (proto_paths self @ extra_proto_paths self)))
        \<and> (\<forall>c \<in> set (filter (\<lambda>c. prefix c (normpath s))
                  (map normpath (proto_paths self @ extra_proto_paths self))).
              length r \<le> length c))"
proof -
  have "compute_proto_root_path self =
      Inr (foldl root_step (normpath s) (proto_paths self @ extra_proto_paths self))"
    using assms by (simp add: compute_proto_root_path_def)
  then show ?thesis
    using root_loop_characterisation
      [of "normpath s" "proto_paths self @ extra_proto_paths self"]
    by blast
qed

theorem compute_proto_root_path_shortest_prefix_witness:
  "source_dir example_command = Some ''a/b/c''
   \<and> compute_proto_root_path example_command = Inr ''a/b''
   \<and> prefix ''a/b'' (normpath ''a/b/c'')
   \<and> compute_proto_root_path (example_command\<lparr>proto_paths := [''x/y'']\<rparr>) = Inr ''a/b/c''"
proof -
  let ?c = "example_command\<lparr>proto_paths := [''x/y'']\<rparr>"
  have src: "source_dir example_command = Some ''a/b/c''"
    by (simp add: example_command_def)
  have cands: "filter (\<lambda>c. prefix c (normpath ''a/b/c''))
      (map normpath (proto_paths example_command @ extra_proto_paths example_command))
      = [''a/b'']"
    by code_simp
  have src': "source_dir ?c = Some ''a/b/c''"
    by (simp add: example_command_def)
  have cands': "filter (\<lambda>c. prefix c (normpath ''a/b/c''))
      (map normpath (proto_paths ?c @ extra_proto_paths ?c)) = []"
    by code_simp
  have norm: "normpath ''a/b/c'' = ''a/b/c''"
    by code_simp
  from compute_proto_root_path_shortest_prefix [OF src]
  obtain r where r: "compute_proto_root_path example_command = Inr r"
    and pre: "prefix r (normpath ''a/b/c'')"
    and some: "filter (\<lambda>c. prefix c (normpath ''a/b/c''))
        (map normpath (proto_paths example_command @ extra_proto_paths example_command))
        \<noteq> [] \<longrightarrow>
      r \<in> set (filter (\<lambda>c. prefix c (normpath ''a/b/c''))
        (map normpath (proto_paths example_command @ extra_proto_paths example_command)))"
    by blast
  from some [unfolded cands] have "r = ''a/b''" by simp
  with r pre have one: "compute_proto_root_path example_command = Inr ''a/b''
      \<and> prefix ''a/b'' (normpath ''a/b/c'')"
    by simp
  from compute_proto_root_path_shortest_prefix [OF src']
  obtain r' where r': "compute_proto_root_path ?c = Inr r'"
    and none: "filter (\<lambda>c. prefix c (normpath ''a/b/c''))
        (map normpath (proto_paths ?c @ extra_proto_paths ?c)) = [] \<longrightarrow>
      r' = normpath ''a/b/c''"
    by blast
  from none [unfolded cands'] norm have "r' = ''a/b/c''" by simp
  with r' have two: "compute_proto_root_path ?c = Inr ''a/b/c''"
    by simp
  show ?thesis using src one two by simp
qed

text \<open>
  Claim C9. The result of \<open>compute_proto_root_path\<close> does not depend on the order of
  the candidate list: two command objects with the same source directory whose combined
  lists \<open>proto_paths\<close> followed by \<open>extra_proto_paths\<close> are permutations of each other
  get the same root path.
\<close>

theorem compute_proto_root_path_permutation:
  assumes "source_dir self' = source_dir self"
    and "mset (proto_paths self' @ extra_proto_paths self')
         = mset (proto_paths self @ extra_proto_paths self)"
  shows "compute_proto_root_path self' = compute_proto_root_path self"
proof (cases "source_dir self")
  case None
  then show ?thesis using assms(1) by (simp add: compute_proto_root_path_def)
next
  case (Some s)
  have "set (proto_paths self' @ extra_proto_paths self')
      = set (proto_paths self @ extra_proto_paths self)"
    using assms(2) by (rule mset_eq_setD)
  then have "foldl root_step (normpath s) (proto_paths self' @ extra_proto_paths self')
      = foldl root_step (normpath s) (proto_paths self @ extra_proto_paths self)"
    by (rule root_loop_set_eq)
  then show ?thesis using Some assms(1) by (simp add: compute_proto_root_path_def)
qed

theorem compute_proto_root_path_permutation_witness:
  "compute_proto_root_path (example_command\<lparr>proto_paths := [''a'', ''x/y'', ''a/b'']\<rparr>)
     = compute_proto_root_path
         (example_command\<lparr>proto_paths := [''a/b''], extra_proto_paths := [''a'', ''x/y'']\<rparr>)
   \<and> compute_proto_root_path (example_command\<lparr>proto_paths := [''a'', ''x/y'', ''a/b'']\<rparr>)
     = Inr ''a''"
proof -
  let ?c' = "example_command\<lparr>proto_paths := [''a'', ''x/y'', ''a/b'']\<rparr>"
  let ?c = "example_command\<lparr>proto_paths := [''a/b''], extra_proto_paths := [''a'', ''x/y'']\<rparr>"
  have src: "source_dir ?c' = source_dir ?c" by simp
  have perm: "mset (proto_paths ?c' @ extra_proto_paths ?c')
      = mset (proto_paths ?c @ extra_proto_paths ?c)"
    by (simp add: example_command_def generate_py_protobufs_initialize_options_def
        initialize_options_def)
  have val: "compute_proto_root_path ?c = Inr ''a''" by code_simp
  show ?thesis
    using compute_proto_root_path_permutation [OF src perm] val by simp
qed

section \<open>Root-relative file names\<close>

lemma str_partition_not_found:
  "\<not> sublist sp f \<Longrightarrow> str_partition f sp = (f, [], [])"
  by (induction f) (auto simp: sublist_Cons_right)

lemma str_partition_first:
  assumes "sp \<noteq> []" and "\<forall>k<length u. \<not> prefix sp (drop k (u @ sp @ v))"
  shows "str_partition (u @ sp @ v) sp = (u, sp, v)"
  using assms
proof (induction u)
  case Nil
  then show ?case by (cases sp) auto
next
  case (Cons c u)
  have "\<not> prefix sp (c # u @ sp @ v)" using Cons.prems(2) by force
  moreover have "\<forall>k<length u. \<not> prefix sp (drop k (u @ sp @ v))"
    using Cons.prems(2) by force
  ultimately show ?case using Cons.IH Cons.prems(1) by simp
qed

lemma relative_to_first:
  "\<forall>k<length u. \<not> prefix (root @ sep) (drop k (u @ (root @ sep) @ v)) \<Longrightarrow>
   relative_to root (u @ (root @ sep) @ v) = v"
  using str_partition_first [of "root @ sep" u v] by (simp add: relative_to_def sep_def)

lemma relative_to_not_found:
  "\<not> sublist (root @ sep) f \<Longrightarrow> relative_to root f = []"
  by (simp add: relative_to_def str_partition_not_found)

text \<open>
  Claim C10. \<open>find_proto_files\<close> rewrites each discovered path by taking what follows
  the first occurrence of the root path followed by the separator, wherever in the path
  that occurrence is (\<open>u\<close> below is what stands before it, and no earlier position of the
  path starts an occurrence); a path in which the root followed by the separator does
  not occur at all is rewritten to the empty string.
\<close>

theorem find_proto_files_after_first_occurrence:
  assumes "glob_proto_files fs self = Inr files" and "proto_root_path self = Some root"
  shows "find_proto_files fs self = Inr (map (relative_to root) files)
    \<and> (\<forall>u v. (\<forall>k<length u. \<not> prefix (root @ sep) (drop k (u @ (root @ sep) @ v))) \<longrightarrow>
          relative_to root (u @ (root @ sep) @ v) = v)
    \<and> (\<forall>f. \<not> sublist (root @ sep) f \<longrightarrow> relative_to root f = [])"
proof -
  have "find_proto_files fs self = Inr (map (relative_to root) files)"
    using assms by (simp add: find_proto_files_def and_then_def)
  then show ?thesis
    using relative_to_first relative_to_not_found by blast
qed

theorem find_proto_files_after_first_occurrence_witness:
  "glob_proto_files example_fs
     (example_command\<lparr>source_dir := Some ''a/bc'', proto_root_path := Some ''a/b''\<rparr>)
     = Inr [''a/bc/x.proto'']
   \<and> \<not> sublist (''a/b'' @ sep) ''a/bc/x.proto''
   \<and> find_proto_files example_fs
     (example_command\<lparr>source_dir := Some ''a/bc'', proto_root_path := Some ''a/b''\<rparr>)
     = Inr [[]]
   \<and> relative_to ''a'' ''ab/a/x.proto'' = ''x.proto''"
proof -
  let ?c = "example_command\<lparr>source_dir := Some ''a/bc'', proto_root_path := Some ''a/b''\<rparr>"
  let ?d = "example_command\<lparr>source_dir := Some ''a/bc'', proto_root_path := Some ''a''\<rparr>"
  have files: "glob_proto_files example_fs ?c = Inr [''a/bc/x.proto'']"
    by code_simp
  have root: "proto_root_path ?c = Some ''a/b''"
    by simp
  have absent: "\<not> sublist (''a/b'' @ sep) ''a/bc/x.proto''"
    by code_simp
  have files': "glob_proto_files example_fs ?d = Inr [''a/bc/x.proto'']"
    by code_simp
  have root': "proto_root_path ?d = Some ''a''"
    by simp
  have first: "\<forall>k<length ''ab/''. \<not> prefix (''a'' @ sep) (drop k (''ab/'' @ (''a'' @ sep) @ ''x.proto''))"
    by (simp add: less_Suc_eq sep_def)
  have "relative_to ''a/b'' ''a/bc/x.proto'' = []"
    using find_proto_files_after_first_occurrence [OF files root] absent by blast
  moreover have "find_proto_files example_fs ?c = Inr (map (relative_to ''a/b'') [''a/bc/x.proto''])"
    using find_proto_files_after_first_occurrence [OF files root] by blast
  moreover have "relative_to ''a'' (''ab/'' @ (''a'' @ sep) @ ''x.proto'') = ''x.proto''"
    using find_proto_files_after_first_occurrence [OF files' root'] first by blast
  ultimately show ?thesis using files absent by (simp add: sep_def)
qed

section \<open>What the stages of \<open>finalize_options\<close> establish\<close>

lemma and_then_Inr:
  "and_then m f = Inr y \<longleftrightarrow> (\<exists>x. m = Inr x \<and> f x = Inr y)"
  by (cases m) (simp_all add: and_then_def)

lemma finalize_search_paths_Inr:
  assumes "finalize_search_paths fs env self0 = Inr self"
  shows "source_dir self = source_dir self0
    \<and> output_dir self = output_dir self0
    \<and> proto_root_path self = proto_root_path self0
    \<and> extra_proto_paths self = extra_proto_paths self0
    \<and> proto_files self = proto_files self0
    \<and> recurse self = recurse self0
    \<and> protoc self = protoc self0
    \<and> include_dirs self = include_dirs (set_undefined_options env self0)
    \<and> proto_paths self =
        (case include_dirs self of None \<Rightarrow> [] | Some dirs \<Rightarrow> dirs) @ proto_paths self0
    \<and> (\<forall>s. source_dir self0 = Some s \<longrightarrow> isdir fs s)
    \<and> isdir fs (output_dir self0)"
  using assms
  by (auto simp: finalize_search_paths_def Let_def and_then_Inr set_undefined_options_def
      ensure_dirname_def split: option.splits if_splits)

lemma finalize_proto_root_path_Inr:
  assumes "finalize_proto_root_path self0 = Inr (self, log)"
  shows "\<exists>root. self = self0\<lparr>proto_root_path := Some root\<rparr>
    \<and> (case proto_root_path self0 of
          Some r \<Rightarrow> root = r | None \<Rightarrow> compute_proto_root_path self0 = Inr root)"
  using assms
  by (auto simp: finalize_proto_root_path_def and_then_Inr split: option.splits)

lemma check_proto_root_path_Inr:
  assumes "check_proto_root_path fs self0 = Inr self"
  shows "\<exists>s root. source_dir self0 = Some s \<and> proto_root_path self0 = Some root
    \<and> startswith s root \<and> isdir fs root
    \<and> self = self0\<lparr>recurse := Some (case recurse self0 of None \<Rightarrow> True | Some b \<Rightarrow> b)\<rparr>"
  using assms
  by (auto simp: check_proto_root_path_def and_then_Inr ensure_dirname_def
      split: option.splits if_splits)

lemma finalize_proto_files_Inr:
  assumes "finalize_proto_files fs env self0 = Inr (self, log)"
  shows "\<exists>files. proto_files self = Some files
    \<and> (case proto_files self0 of Some fl \<Rightarrow> files = fl | None \<Rightarrow> find_proto_files fs self0 = Inr files)
    \<and> self = self0\<lparr>proto_files := Some files,
          protoc := (if protoc self0 = None then getenv env ''PROTOC'' else protoc self0)\<rparr>"
  using assms
  by (auto simp: finalize_proto_files_def and_then_Inr split: option.splits if_splits)


lemma validate_options_Inr:
  assumes "validate_options fs env self0 = Inr (self, log)"
  shows "\<exists>s root. source_dir self0 = Some s \<and> source_dir self = Some s
    \<and> proto_root_path self = Some root \<and> startswith s root
    \<and> output_dir self = output_dir self0
    \<and> proto_files self = proto_files self0
    \<and> protoc self = protoc self0
    \<and> extra_proto_paths self = extra_proto_paths self0
    \<and> recurse self \<noteq> None"
proof -
  from assms obtain self1 self2 where
    s1: "finalize_search_paths fs env self0 = Inr self1" and
    s2: "finalize_proto_root_path self1 = Inr (self2, log)" and
    s3: "check_proto_root_path fs self2 = Inr self"
    by (auto simp: validate_options_def and_then_Inr)
  from finalize_proto_root_path_Inr [OF s2] obtain root where
    r: "self2 = self1\<lparr>proto_root_path := Some root\<rparr>" by blast
  from check_proto_root_path_Inr [OF s3] obtain s root' where
    c: "source_dir self2 = Some s" "proto_root_path self2 = Some root'" "startswith s root'"
       "self = self2\<lparr>recurse := Some (case recurse self2 of None \<Rightarrow> True | Some b \<Rightarrow> b)\<rparr>"
    by blast
  show ?thesis
    using finalize_search_paths_Inr [OF s1] r c by simp
qed

lemma finalize_options_Inr:
  assumes "finalize_options fs env self0 = Inr (self, log)"
  shows "\<exists>self1 log1 files. validate_options fs env self0 = Inr (self1, log1)
    \<and> proto_files self = Some files
    \<and> self = self1\<lparr>proto_files := Some files,
          protoc := (if protoc self1 = None then getenv env ''PROTOC'' else protoc self1)\<rparr>"
proof -
  from assms obtain self1 log1 log2 where
    v: "validate_options fs env self0 = Inr (self1, log1)" and
    f: "finalize_proto_files fs env self1 = Inr (self, log2)"
    by (auto simp: finalize_options_def and_then_Inr)
  from finalize_proto_files_Inr [OF f] v show ?thesis by blast
qed

lemma run_protoc_Inr:
  assumes "proto_root_path self = Some root" and "proto_files self = Some files"
  shows "run_protoc env self args =
    Inr (self\<lparr>protoc := (if protoc self = None then find_executable env ''protoc'' else protoc self)\<rparr>,
         (if protoc self = None then find_executable env ''protoc'' else protoc self),
         map (\<lambda>x. ''--proto_path='' @ x) (root # proto_paths self) @ args @ files)"
  using assms by (simp add: run_protoc_def Let_def)

section \<open>The compiler invocation\<close>

text \<open>
  Claim C4. \<open>run_protoc\<close> hands to the external process, after the executable, one
  \<^verbatim>\<open>--proto_path=\<close> flag for the root, then one for each entry of \<open>proto_paths\<close>,
  then the caller's flags, then the root-relative file list, in that order. The caller
  \<open>generate_py_protobufs.run\<close> passes the single flag \<^verbatim>\<open>--python_out=<output_dir>\<close>,
  and after its \<open>finalize_options\<close> the entries of \<open>proto_paths\<close> are all the candidate
  directories: the list \<open>proto_paths\<close> followed by \<open>extra_proto_paths\<close> that the root was
  computed from.
\<close>

theorem run_protoc_argument_order:
  "(proto_root_path self = Some root \<and> proto_files self = Some files \<longrightarrow>
      (\<exists>self' exe. run_protoc env self args =
         Inr (self', exe,
              map (\<lambda>x. ''--proto_path='' @ x) (root # proto_paths self) @ args @ files)))
   \<and> generate_py_protobufs_run env self =
       run_protoc env self [''--python_out='' @ output_dir self]
   \<and> (generate_py_protobufs_finalize_options fs env self0 = Inr (self, log) \<longrightarrow>
       (\<exists>self1 log1 root files self' exe.
          validate_options fs env self0 = Inr (self1, log1)
          \<and> proto_root_path self1 = Some root
          \<and> proto_files self = Some files
          \<and> run_command fs env self0 =
              Inr (self', exe,
                   map (\<lambda>x. ''--proto_path='' @ x)
                     (root # proto_paths self1 @ extra_proto_paths self1)
                   @ [''--python_out='' @ output_dir self0] @ files)))"
proof (intro conjI impI)
  assume "proto_root_path self = Some root \<and> proto_files self = Some files"
  then show "\<exists>self' exe. run_protoc env self args =
      Inr (self', exe, map (\<lambda>x. ''--proto_path='' @ x) (root # proto_paths self) @ args @ files)"
    using run_protoc_Inr [of self root files env args] by blast
next
  show "generate_py_protobufs_run env self =
      run_protoc env self [''--python_out='' @ output_dir self]"
    by (simp add: generate_py_protobufs_run_def)
next
  assume g: "generate_py_protobufs_finalize_options fs env self0 = Inr (self, log)"
  then obtain self2 where
    f: "finalize_options fs env self0 = Inr (self2, log)" and
    e: "self = self2\<lparr>proto_paths := proto_paths self2 @ extra_proto_paths self2\<rparr>"
    by (auto simp: generate_py_protobufs_finalize_options_def and_then_Inr Let_def)
  from finalize_options_Inr [OF f] obtain self1 log1 files where
    v: "validate_options fs env self0 = Inr (self1, log1)" and
    pf: "proto_files self2 = Some files" and
    s2: "self2 = self1\<lparr>proto_files := Some files,
          protoc := (if protoc self1 = None then getenv env ''PROTOC'' else protoc self1)\<rparr>"
    by blast
  from validate_options_Inr [OF v] obtain root where
    r: "proto_root_path self1 = Some root" and o: "output_dir self1 = output_dir self0"
    by blast
  have root: "proto_root_path self = Some root" using e s2 r by simp
  have files: "proto_files self = Some files" using e pf by simp
  have paths: "proto_paths self = proto_paths self1 @ extra_proto_paths self1"
    using e s2 by simp
  have out: "output_dir self = output_dir self0" using e s2 o by simp
  have "run_command fs env self0 = generate_py_protobufs_run env self"
    using g by (simp add: run_command_def and_then_def)
  then have "\<exists>self' exe. run_command fs env self0 =
      Inr (self', exe,
           map (\<lambda>x. ''--proto_path='' @ x) (root # proto_paths self1 @ extra_proto_paths self1)
           @ [''--python_out='' @ output_dir self0] @ files)"
    using run_protoc_Inr [OF root files, of env "[''--python_out='' @ output_dir self]"]
      paths out
    by (simp add: generate_py_protobufs_run_def)
  then show "\<exists>self1 log1 root files self' exe.
      validate_options fs env self0 = Inr (self1, log1)
      \<and> proto_root_path self1 = Some root
      \<and> proto_files self = Some files
      \<and> run_command fs env self0 =
          Inr (self', exe,
               map (\<lambda>x. ''--proto_path='' @ x)
                 (root # proto_paths self1 @ extra_proto_paths self1)
               @ [''--python_out='' @ output_dir self0] @ files)"
    using v r files by blast
qed

theorem run_protoc_argument_order_witness:
  "generate_py_protobufs_finalize_options example_fs example_env
       (example_command\<lparr>extra_proto_paths := [''a'']\<rparr>)
     = Inr (\<lparr>source_dir = Some ''a/b/c'', output_dir = ''.'', proto_root_path = Some ''a'',
             include_dirs = None, proto_paths = [''a/b'', ''x/y'', ''a''],
             extra_proto_paths = [''a''],
             proto_files = Some [''b/c/top.proto'', ''b/c/d/foo.proto''],
             recurse = Some True, protoc = None\<rparr>,
            [Announce ''using computed proto_root_path: a''])
   \<and> (\<exists>self' exe. run_command example_fs example_env
          (example_command\<lparr>extra_proto_paths := [''a'']\<rparr>)
        = Inr (self', exe,
               [''--proto_path=a'', ''--proto_path=a/b'', ''--proto_path=x/y'',
                ''--proto_path=a'', ''--python_out=.'', ''b/c/top.proto'',
                ''b/c/d/foo.proto'']))"
proof -
  let ?c0 = "example_command\<lparr>extra_proto_paths := [''a'']\<rparr>"
  let ?self = "\<lparr>source_dir = Some ''a/b/c'', output_dir = ''.'', proto_root_path = Some ''a'',
      include_dirs = None, proto_paths = [''a/b'', ''x/y'', ''a''],
      extra_proto_paths = [''a''],
      proto_files = Some [''b/c/top.proto'', ''b/c/d/foo.proto''],
      recurse = Some True, protoc = None\<rparr>"
  let ?log = "[Announce ''using computed proto_root_path: a'']"
  have fin: "generate_py_protobufs_finalize_options example_fs example_env ?c0
      = Inr (?self, ?log)"
    by code_simp
  have val: "validate_options example_fs example_env ?c0
      = Inr (\<lparr>source_dir = Some ''a/b/c'', output_dir = ''.'', proto_root_path = Some ''a'',
               include_dirs = None, proto_paths = [''a/b'', ''x/y''],
               extra_proto_paths = [''a''], proto_files = None,
               recurse = Some True, protoc = None\<rparr>, ?log)"
    by code_simp
  have out: "output_dir ?c0 = ''.''"
    by (simp add: example_command_def generate_py_protobufs_initialize_options_def)
  from run_protoc_argument_order [of ?self "''a''" "[]" example_env "[]" example_fs ?c0 ?log]
    fin
  obtain self1 log1 root files self' exe where
    v: "validate_options example_fs example_env ?c0 = Inr (self1, log1)" and
    r: "proto_root_path self1 = Some root" and
    f: "proto_files ?self = Some files" and
    run: "run_command example_fs example_env ?c0 =
          Inr (self', exe,
               map (\<lambda>x. ''--proto_path='' @ x)
                 (root # proto_paths self1 @ extra_proto_paths self1)
               @ [''--python_out='' @ output_dir ?c0] @ files)"
    by blast
  from v val have self1: "self1 = \<lparr>source_dir = Some ''a/b/c'', output_dir = ''.'',
      proto_root_path = Some ''a'', include_dirs = None, proto_paths = [''a/b'', ''x/y''],
      extra_proto_paths = [''a''], proto_files = None,
      recurse = Some True, protoc = None\<rparr>"
    by simp
  from r self1 have root: "root = ''a''" by simp
  from f have files: "files = [''b/c/top.proto'', ''b/c/d/foo.proto'']" by simp
  have "run_command example_fs example_env ?c0
      = Inr (self', exe,
             [''--proto_path=a'', ''--proto_path=a/b'', ''--proto_path=x/y'',
              ''--proto_path=a'', ''--python_out=.'', ''b/c/top.proto'',
              ''b/c/d/foo.proto''])"
    using run unfolding self1 root files out by simp
  then show ?thesis using fin by blast
qed

section \<open>Configuration errors and warnings\<close>





lemma str_partition_no_char:
  "c \<notin> set p \<Longrightarrow> str_partition p [c] = (p, [], [])"
  by (induction p) auto

lemma str_partition_first_char:
  "c \<notin> set virt \<Longrightarrow> str_partition (virt @ [c] @ real) [c] = (virt, [c], real)"
  by (induction virt) auto

lemma invalid_proto_path_iff:
  "invalid_proto_path fs p \<longleftrightarrow>
     (CHR ''='' \<notin> set p \<and> \<not> isdir fs p)
     \<or> (\<exists>virt real. p = virt @ ''='' @ real \<and> CHR ''='' \<notin> set virt \<and> \<not> exists fs real)"
proof (cases "CHR ''='' \<in> set p")
  case False
  then have "\<And>virt real. p \<noteq> virt @ ''='' @ real" by auto
  then show ?thesis
    using False str_partition_no_char [of "CHR ''=''" p]
    by (simp add: invalid_proto_path_def)
next
  case True
  then obtain virt real where p: "p = virt @ ''='' @ real" and v: "CHR ''='' \<notin> set virt"
    using split_list_first [of "CHR ''=''" p] by auto
  have uniq: "virt' = virt \<and> real' = real"
    if "p = virt' @ ''='' @ real'" and "CHR ''='' \<notin> set virt'" for virt' real'
  proof -
    have "str_partition p ''='' = (virt', ''='', real')"
      using that str_partition_first_char [of "CHR ''=''" virt' real'] by simp
    moreover have "str_partition p ''='' = (virt, ''='', real)"
      using p v str_partition_first_char [of "CHR ''=''" virt real] by simp
    ultimately show ?thesis by simp
  qed
  have "invalid_proto_path fs p \<longleftrightarrow> \<not> exists fs real"
    using p v str_partition_first_char [of "CHR ''=''" virt real]
    by (simp add: invalid_proto_path_def)
  then show ?thesis using True p v uniq by blast
qed

lemma ensure_proto_path_list_invalid:
  assumes "p \<in> set val" and "invalid_proto_path fs p"
  shows "ensure_proto_path_list fs option val
    = Inl (DistutilsOptionError (''invalid '' @ option @ '' entry'')
        (filter (invalid_proto_path fs) val))"
proof -
  have "filter (invalid_proto_path fs) val \<noteq> []"
    using assms by (auto simp: filter_empty_conv)
  then show ?thesis by (simp add: ensure_proto_path_list_def)
qed

lemma ensure_dirname_cases:
  "ensure_dirname fs option val = Inr () \<or> (\<exists>msg. ensure_dirname fs option val = Inl (DistutilsOptionError msg []))"
  by (simp add: ensure_dirname_def split: option.splits)

lemma ensure_proto_path_list_cases:
  "ensure_proto_path_list fs option val = Inr ()
   \<or> (\<exists>msg args. ensure_proto_path_list fs option val = Inl (DistutilsOptionError msg args))"
  by (simp add: ensure_proto_path_list_def Let_def)

lemma finalize_search_paths_invalid:
  assumes "p \<in> set (case include_dirs (set_undefined_options env self) of
                       None \<Rightarrow> [] | Some dirs \<Rightarrow> dirs)
               \<union> set (proto_paths self) \<union> set (extra_proto_paths self)"
    and "invalid_proto_path fs p"
  shows "\<exists>msg args. finalize_search_paths fs env self = Inl (DistutilsOptionError msg args)"
proof -
  let ?self = "set_undefined_options env self"
  have pp: "proto_paths ?self = proto_paths self" "extra_proto_paths ?self = extra_proto_paths self"
    by (simp_all add: set_undefined_options_def split: option.splits)
  consider (src) msg where "ensure_dirname fs ''source_dir'' (source_dir ?self) = Inl (DistutilsOptionError msg [])"
    | (out) msg where "ensure_dirname fs ''source_dir'' (source_dir ?self) = Inr ()"
        "ensure_dirname fs ''output_dir'' (Some (output_dir ?self)) = Inl (DistutilsOptionError msg [])"
    | (ok) "ensure_dirname fs ''source_dir'' (source_dir ?self) = Inr ()"
        "ensure_dirname fs ''output_dir'' (Some (output_dir ?self)) = Inr ()"
    using ensure_dirname_cases by blast
  then show ?thesis
  proof cases
    case src
    then show ?thesis by (simp add: finalize_search_paths_def Let_def and_then_def)
  next
    case out
    then show ?thesis by (simp add: finalize_search_paths_def Let_def and_then_def)
  next
    case ok
    show ?thesis
    proof (cases "include_dirs ?self")
      case None
      then have "p \<in> set (proto_paths ?self) \<union> set (extra_proto_paths ?self)"
        using assms(1) pp by simp
      then show ?thesis
        using ok None assms(2) ensure_proto_path_list_invalid [of p _ fs]
          ensure_proto_path_list_cases [of fs "''proto_paths''" "proto_paths ?self"]
        by (auto simp: finalize_search_paths_def Let_def and_then_def)
    next
      case (Some dirs)
      then have "p \<in> set dirs \<or> p \<in> set (dirs @ proto_paths ?self) \<or> p \<in> set (extra_proto_paths ?self)"
        using assms(1) pp by auto
      then show ?thesis
        using ok Some assms(2) ensure_proto_path_list_invalid [of p _ fs]
          ensure_proto_path_list_cases [of fs "''include_dirs''" dirs]
          ensure_proto_path_list_cases [of fs "''proto_paths''" "dirs @ proto_paths ?self"]
        by (auto simp: finalize_search_paths_def Let_def and_then_def)
    qed
  qed
qed

text \<open>
  Claim C6. If one of the search-path lists (\<open>include_dirs\<close> as taken over from
  \<open>build_ext\<close>, \<open>proto_paths\<close>, \<open>extra_proto_paths\<close>) holds an entry without \<^verbatim>\<open>=\<close> that
  is not a directory, or an entry \<^verbatim>\<open>virtual=real\<close> whose real path does not exist,
  then \<open>finalize_options\<close> ends with \<open>DistutilsOptionError\<close>, also in
  \<open>generate_py_protobufs\<close>, and the run of the command ends with that error and hands
  nothing to the external process.
\<close>

theorem finalize_options_invalid_search_path:
  assumes "p \<in> set (case include_dirs (set_undefined_options env self) of
                       None \<Rightarrow> [] | Some dirs \<Rightarrow> dirs)
               \<union> set (proto_paths self) \<union> set (extra_proto_paths self)"
    and "(CHR ''='' \<notin> set p \<and> \<not> isdir fs p)
         \<or> (\<exists>virt real. p = virt @ ''='' @ real \<and> CHR ''='' \<notin> set virt \<and> \<not> exists fs real)"
  shows "\<exists>msg args.
      finalize_options fs env self = Inl (DistutilsOptionError msg args)
    \<and> generate_py_protobufs_finalize_options fs env self = Inl (DistutilsOptionError msg args)
    \<and> run_command fs env self = Inl (DistutilsOptionError msg args)"
proof -
  have "invalid_proto_path fs p" using assms(2) by (simp add: invalid_proto_path_iff)
  from finalize_search_paths_invalid [OF assms(1) this]
  obtain msg args where "finalize_search_paths fs env self = Inl (DistutilsOptionError msg args)"
    by blast
  then have "finalize_options fs env self = Inl (DistutilsOptionError msg args)"
    by (simp add: finalize_options_def validate_options_def and_then_def)
  then show ?thesis
    by (simp add: generate_py_protobufs_finalize_options_def run_command_def and_then_def)
qed

theorem finalize_options_invalid_search_path_witness:
  "finalize_options example_fs example_env (example_command\<lparr>proto_paths := [''a/b'', ''x/z'']\<rparr>)
     = Inl (DistutilsOptionError ''invalid proto_paths entry'' [''x/z''])
   \<and> run_command example_fs example_env (example_command\<lparr>proto_paths := [''a/b'', ''x/z'']\<rparr>)
     = Inl (DistutilsOptionError ''invalid proto_paths entry'' [''x/z''])
   \<and> run_command example_fs example_env
       (example_command\<lparr>extra_proto_paths := [''virt=x/z'']\<rparr>)
     = Inl (DistutilsOptionError ''invalid extra_proto_paths entry'' [''virt=x/z''])"
proof -
  let ?c = "example_command\<lparr>proto_paths := [''a/b'', ''x/z'']\<rparr>"
  let ?d = "example_command\<lparr>extra_proto_paths := [''virt=x/z'']\<rparr>"
  have mem: "''x/z'' \<in> set (case include_dirs (set_undefined_options example_env ?c) of
                       None \<Rightarrow> [] | Some dirs \<Rightarrow> dirs)
               \<union> set (proto_paths ?c) \<union> set (extra_proto_paths ?c)"
    by simp
  have "\<not> isdir example_fs ''x/z''" by code_simp
  then have bad: "(CHR ''='' \<notin> set ''x/z'' \<and> \<not> isdir example_fs ''x/z'')
      \<or> (\<exists>virt real. ''x/z'' = virt @ ''='' @ real \<and> CHR ''='' \<notin> set virt
            \<and> \<not> exists example_fs real)"
    by simp
  have fin: "finalize_options example_fs example_env ?c
      = Inl (DistutilsOptionError ''invalid proto_paths entry'' [''x/z''])"
    by code_simp
  have one: "run_command example_fs example_env ?c
      = Inl (DistutilsOptionError ''invalid proto_paths entry'' [''x/z''])"
    using finalize_options_invalid_search_path [OF mem bad] fin by auto
  have mem': "''virt=x/z'' \<in> set (case include_dirs (set_undefined_options example_env ?d) of
                       None \<Rightarrow> [] | Some dirs \<Rightarrow> dirs)
               \<union> set (proto_paths ?d) \<union> set (extra_proto_paths ?d)"
    by simp
  have "\<not> exists example_fs ''x/z''" by code_simp
  then have "''virt=x/z'' = ''virt'' @ ''='' @ ''x/z'' \<and> CHR ''='' \<notin> set ''virt''
      \<and> \<not> exists example_fs ''x/z''"
    by simp
  then have bad': "(CHR ''='' \<notin> set ''virt=x/z'' \<and> \<not> isdir example_fs ''virt=x/z'')
      \<or> (\<exists>virt real. ''virt=x/z'' = virt @ ''='' @ real \<and> CHR ''='' \<notin> set virt
            \<and> \<not> exists example_fs real)"
    by blast
  have fin': "finalize_options example_fs example_env ?d
      = Inl (DistutilsOptionError ''invalid extra_proto_paths entry'' [''virt=x/z''])"
    by code_simp
  have two: "run_command example_fs example_env ?d
      = Inl (DistutilsOptionError ''invalid extra_proto_paths entry'' [''virt=x/z''])"
    using finalize_options_invalid_search_path [OF mem' bad'] fin' by auto
  show ?thesis using fin one two by simp
qed

text \<open>
  Claim C7. When the options pass every check before the files are looked for, no
  file list is given and \<open>find_proto_files\<close> finds no file, \<open>finalize_options\<close>
  completes: it returns the command object with an empty file list and has logged the
  warning after the earlier messages. So does the \<open>finalize_options\<close> of
  \<open>generate_py_protobufs\<close>.
\<close>

theorem finalize_options_no_files_warning:
  assumes "validate_options fs env self0 = Inr (self, log)"
    and "proto_files self = None"
    and "find_proto_files fs self = Inr []"
  shows "\<exists>s self'. source_dir self = Some s
    \<and> proto_files self' = Some []
    \<and> finalize_options fs env self0
        = Inr (self', log @ [Warn (''no .proto files were found under '' @ s)])
    \<and> (\<exists>self''. generate_py_protobufs_finalize_options fs env self0
        = Inr (self'', log @ [Warn (''no .proto files were found under '' @ s)]))"
proof -
  from validate_options_Inr [OF assms(1)] obtain s where
    s: "source_dir self = Some s" and o: "output_dir self = output_dir self0" by blast
  let ?self' = "self\<lparr>proto_files := Some [],
      protoc := (if protoc self = None then getenv env ''PROTOC'' else protoc self)\<rparr>"
  let ?log = "log @ [Warn (''no .proto files were found under '' @ s)]"
  have "finalize_proto_files fs env self
      = Inr (?self', [Warn (''no .proto files were found under '' @ s)])"
    using assms(2,3) s by (simp add: finalize_proto_files_def and_then_def)
  then have fin: "finalize_options fs env self0 = Inr (?self', ?log)"
    using assms(1) by (simp add: finalize_options_def and_then_def)
  from assms(1) obtain self1 where "finalize_search_paths fs env self0 = Inr self1"
    by (auto simp: validate_options_def and_then_Inr)
  then have "isdir fs (output_dir self0)"
    using finalize_search_paths_Inr by blast
  then have "\<exists>self''. generate_py_protobufs_finalize_options fs env self0 = Inr (self'', ?log)"
    using fin o
    by (simp add: generate_py_protobufs_finalize_options_def and_then_def Let_def
        ensure_dirname_def)
  then show ?thesis using s fin by auto
qed

theorem finalize_options_no_files_warning_witness:
  "find_proto_files example_fs
       \<lparr>source_dir = Some ''x/y'', output_dir = ''.'', proto_root_path = Some ''x/y'',
        include_dirs = None, proto_paths = [''a/b'', ''x/y''], extra_proto_paths = [],
        proto_files = None, recurse = Some True, protoc = None\<rparr> = Inr []
   \<and> (\<exists>self'. finalize_options example_fs example_env
          (example_command\<lparr>source_dir := Some ''x/y''\<rparr>)
        = Inr (self', [Warn ''no .proto files were found under x/y'']))"
proof -
  let ?c = "example_command\<lparr>source_dir := Some ''x/y''\<rparr>"
  let ?self = "\<lparr>source_dir = Some ''x/y'', output_dir = ''.'', proto_root_path = Some ''x/y'',
      include_dirs = None, proto_paths = [''a/b'', ''x/y''], extra_proto_paths = [],
      proto_files = None, recurse = Some True, protoc = None\<rparr>"
  have v: "validate_options example_fs example_env ?c = Inr (?self, [])" by code_simp
  have n: "proto_files ?self = None" by simp
  have f: "find_proto_files example_fs ?self = Inr []" by code_simp
  from finalize_options_no_files_warning [OF v n f]
  obtain s self' where "source_dir ?self = Some s"
    and "finalize_options example_fs example_env ?c
      = Inr (self', [] @ [Warn (''no .proto files were found under '' @ s)])"
    by blast
  then have "finalize_options example_fs example_env ?c
      = Inr (self', [Warn ''no .proto files were found under x/y''])"
    by simp
  then show ?thesis using f by blast
qed

section \<open>File discovery\<close>

lemma fnmatch_literal:
  "\<not> has_magic ps \<Longrightarrow> fnmatch n ps \<longleftrightarrow> n = ps"
  by (induction n ps rule: fnmatch.induct) (auto simp: has_magic_def)

lemma fnmatch_star:
  "fnmatch n (CHR ''*'' # ps) \<longleftrightarrow> (\<exists>k\<le>length n. fnmatch (drop k n) ps)"
proof (induction n)
  case Nil
  then show ?case by simp
next
  case (Cons c cs)
  have "(\<exists>k\<le>length (c # cs). fnmatch (drop k (c # cs)) ps)
      \<longleftrightarrow> fnmatch (c # cs) ps \<or> (\<exists>k\<le>length cs. fnmatch (drop k cs) ps)"
  proof
    assume "\<exists>k\<le>length (c # cs). fnmatch (drop k (c # cs)) ps"
    then obtain k where k: "k \<le> length (c # cs)" "fnmatch (drop k (c # cs)) ps" by blast
    then show "fnmatch (c # cs) ps \<or> (\<exists>k\<le>length cs. fnmatch (drop k cs) ps)"
      by (cases k) auto
  next
    assume "fnmatch (c # cs) ps \<or> (\<exists>k\<le>length cs. fnmatch (drop k cs) ps)"
    then show "\<exists>k\<le>length (c # cs). fnmatch (drop k (c # cs)) ps"
    proof
      assume "fnmatch (c # cs) ps"
      then have "0 \<le> length (c # cs) \<and> fnmatch (drop 0 (c # cs)) ps" by simp
      then show ?thesis by blast
    next
      assume "\<exists>k\<le>length cs. fnmatch (drop k cs) ps"
      then obtain k where "k \<le> length cs" "fnmatch (drop k cs) ps" by blast
      then have "Suc k \<le> length (c # cs) \<and> fnmatch (drop (Suc k) (c # cs)) ps" by simp
      then show ?thesis by blast
    qed
  qed
  then show ?case using Cons.IH by simp
qed

lemma fnmatch_proto:
  "fnmatch n ''*.proto'' \<longleftrightarrow> suffix ''.proto'' n"
proof -
  have "\<not> has_magic ''.proto''" by (simp add: has_magic_def)
  then have "fnmatch n ''*.proto'' \<longleftrightarrow> (\<exists>k\<le>length n. drop k n = ''.proto'')"
    by (simp add: fnmatch_star fnmatch_literal)
  also have "\<dots> \<longleftrightarrow> suffix ''.proto'' n"
  proof
    assume "\<exists>k\<le>length n. drop k n = ''.proto''"
    then show "suffix ''.proto'' n" by (metis suffix_drop)
  next
    assume "suffix ''.proto'' n"
    then obtain zs where "n = zs @ ''.proto''" by (auto simp: suffix_def)
    then have "length zs \<le> length n \<and> drop (length zs) n = ''.proto''" by simp
    then show "\<exists>k\<le>length n. drop k n = ''.proto''" by blast
  qed
  finally show ?thesis .
qed

lemma path_join_empty: "path_join [] b = b"
  by (simp add: path_join_def)

lemma path_split_no_slash:
  assumes "CHR ''/'' \<notin> set b"
  shows "path_split b = ([], b)"
proof -
  have tw: "takeWhile (\<lambda>c. c \<noteq> CHR ''/'') (rev b) = rev b"
    using assms by (auto simp: takeWhile_eq_all_conv)
  show ?thesis by (simp add: path_split_def Let_def tw)
qed

lemma path_split_slash:
  assumes "CHR ''/'' \<notin> set b"
  shows "path_split (a @ ''/'' @ b) =
    (if a @ ''/'' \<noteq> replicate (length (a @ ''/'')) CHR ''/''
     then rev (dropWhile (\<lambda>c. c = CHR ''/'') (rev (a @ ''/''))) else a @ ''/'', b)"
proof -
  have tw: "takeWhile (\<lambda>c. c \<noteq> CHR ''/'') (rev (a @ ''/'' @ b)) = rev b"
    using assms by (auto simp: takeWhile_append)
  have hd: "take (length (a @ ''/'' @ b) - length (rev (rev b))) (a @ ''/'' @ b) = a @ ''/''"
    by simp
  show ?thesis
    unfolding path_split_def Let_def tw hd by simp
qed


lemma has_magic_iff: "has_magic s \<longleftrightarrow> (\<exists>c\<in>set s. c = CHR ''*'' \<or> c = CHR ''?'' \<or> c = CHR ''['')"
  by (simp add: has_magic_def list_ex_iff)

lemma path_join_pattern_cases:
  assumes "CHR ''/'' \<notin> set b" and "b \<noteq> []"
  shows "(s = [] \<and> path_join s b = b)
    \<or> (\<exists>a. path_join s b = a @ ''/'' @ b \<and> set a \<subseteq> set s \<and> s \<noteq> [])"
proof -
  have nb: "\<not> startswith b sep"
    using assms by (cases b) (auto simp: startswith_def sep_def)
  show ?thesis
  proof (cases "s = []")
    case True
    then show ?thesis using nb by (simp add: path_join_def)
  next
    case False
    show ?thesis
    proof (cases "suffix sep s")
      case True
      then obtain a where a: "s = a @ ''/''" by (auto simp: suffix_def sep_def)
      then have "path_join s b = a @ ''/'' @ b" using nb True by (simp add: path_join_def)
      then show ?thesis using a by auto
    next
      case nsuf: False
      then have "path_join s b = s @ ''/'' @ b"
        using nb False by (simp add: path_join_def sep_def)
      then show ?thesis using False by auto
    qed
  qed
qed

lemma rstrip_subset:
  "set (if P then rev (dropWhile Q (rev h)) else h) \<subseteq> set h"
  by (auto dest: set_dropWhileD)

lemma path_split_pattern:
  assumes "CHR ''/'' \<notin> set b" and "b \<noteq> []"
  shows "snd (path_split (path_join s b)) = b
    \<and> set (fst (path_split (path_join s b))) \<subseteq> set s \<union> {CHR ''/''}"
proof -
  from path_join_pattern_cases [OF assms, of s]
  show ?thesis
  proof
    assume "s = [] \<and> path_join s b = b"
    then have e: "path_join s b = b" by blast
    show ?thesis unfolding e path_split_no_slash [OF assms(1)] by simp
  next
    assume "\<exists>a. path_join s b = a @ ''/'' @ b \<and> set a \<subseteq> set s \<and> s \<noteq> []"
    then obtain a where a: "path_join s b = a @ ''/'' @ b" "set a \<subseteq> set s" by blast
    have sl: "set (a @ ''/'') \<subseteq> set s \<union> {CHR ''/''}"
      using a(2) by auto
    have tl: "snd (path_split (path_join s b)) = b"
      unfolding a(1) path_split_slash [OF assms(1)] by (rule snd_conv)
    have "set (fst (path_split (path_join s b))) \<subseteq> set (a @ ''/'')"
      unfolding a(1) path_split_slash [OF assms(1)] fst_conv
      by (rule rstrip_subset)
    then show ?thesis using tl sl by blast
  qed
qed

lemma glob1_proto:
  "glob1 fs d ''*.proto'' dironly =
     filter (\<lambda>n. \<not> ishidden n \<and> suffix ''.proto'' n) (glob_listdir fs d dironly)"
  by (simp add: glob1_def Let_def ishidden_def fnmatch_proto conj_commute)

lemma map_path_join_empty: "map (path_join []) xs = xs"
  by (induction xs) (simp_all add: path_join_empty)

lemma glob_proto_pattern:
  assumes "\<not> has_magic s"
  shows "glob fs (path_join s ''*.proto'') =
    map (path_join (fst (path_split (path_join s ''*.proto''))))
      (filter (\<lambda>n. \<not> ishidden n \<and> suffix ''.proto'' n)
         (glob_listdir fs (fst (path_split (path_join s ''*.proto''))) False))"
proof -
  let ?p = "path_join s ''*.proto''"
  let ?d = "fst (path_split ?p)"
  have b: "CHR ''/'' \<notin> set ''*.proto''" "''*.proto'' \<noteq> []" by simp_all
  have tail: "snd (path_split ?p) = ''*.proto''"
    and head: "set ?d \<subseteq> set s \<union> {CHR ''/''}"
    using path_split_pattern [OF b, of s] by blast+
  have nm: "\<not> has_magic ?d"
    using head assms by (auto simp: has_magic_iff)
  have "suffix ''*.proto'' ?p"
    using path_join_pattern_cases [OF b, of s] by (auto simp: suffix_def)
  then obtain zs where zs: "?p = zs @ ''*.proto''" by (auto simp: suffix_def)
  have m: "has_magic ?p" unfolding zs by (simp add: has_magic_iff)
  have ne: "?p \<noteq> []" unfolding zs by simp
  have mb: "has_magic ''*.proto''" by (simp add: has_magic_def)
  have "iglob fs ?p False =
      (if ?d = [] then glob1 fs [] ''*.proto'' False
       else concat (map (\<lambda>dirname. map (path_join dirname)
              (glob1 fs dirname ''*.proto'' False)) [?d]))"
    by (subst iglob.simps) (simp only: m nm tail mb simp_thms if_True if_False)
  then have "iglob fs ?p False = map (path_join ?d) (glob1 fs ?d ''*.proto'' False)"
    by (cases "?d = []") (simp_all add: map_path_join_empty)
  then show ?thesis using ne by (simp add: glob_def glob1_proto)
qed



lemma glob_listdir_files:
  "glob_listdir fs d False =
     (case scandir fs (if d \<noteq> [] then d else ''.'') of None \<Rightarrow> [] | Some names \<Rightarrow> names)"
  by (simp add: glob_listdir_def Let_def split: option.splits)

lemma path_split_pattern_dir:
  assumes "s \<noteq> []" and "last s \<noteq> CHR ''/''"
  shows "fst (path_split (path_join s ''*.proto'')) = s"
proof -
  have ns: "\<not> suffix sep s"
    using assms by (auto simp: suffix_def sep_def)
  have j: "path_join s ''*.proto'' = s @ ''/'' @ ''*.proto''"
    using assms(1) ns by (simp add: path_join_def startswith_def sep_def)
  have b: "CHR ''/'' \<notin> set ''*.proto''" by simp
  have nr: "s @ ''/'' \<noteq> replicate (length (s @ ''/'')) CHR ''/''"
  proof
    assume "s @ ''/'' = replicate (length (s @ ''/'')) CHR ''/''"
    then have "set (s @ ''/'') \<subseteq> {CHR ''/''}" by (metis set_replicate_conv_if empty_subsetI subset_refl)
    then have "last s = CHR ''/''" using assms(1) last_in_set by fastforce
    then show False using assms(2) by simp
  qed
  have "dropWhile (\<lambda>c. c = CHR ''/'') (rev s) = rev s"
    using assms by (cases "rev s") (auto simp: last_rev [symmetric] simp del: last_rev)
  then have st: "rev (dropWhile (\<lambda>c. c = CHR ''/'') (rev (s @ ''/''))) = s"
    by simp
  show ?thesis
    unfolding j path_split_slash [OF b] fst_conv using nr st by presburger
qed

text \<open>
  What the code does with the recurse flag off (false or unset), for a source directory
  without the characters \<^verbatim>\<open>*?[\<close>: \<open>find_proto_files\<close> returns exactly the
  root-relative names of the entries of the scanned directory \<open>d\<close> whose names end in
  \<^verbatim>\<open>.proto\<close> and do not start with a dot, files and directories alike. \<open>d\<close> is
  the source directory as \<^verbatim>\<open>glob\<close> splits it off the pattern, the source directory
  itself when that is not empty and has no trailing slash. The result depends on the
  file system only through the listing of \<open>d\<close>, so nothing in a subdirectory changes
  it.
\<close>

theorem find_proto_files_no_recursion:
  assumes "source_dir self = Some s" and "\<not> has_magic s"
    and "recurse self \<noteq> Some True" and "proto_root_path self = Some root"
  shows "let d = fst (path_split (path_join s ''*.proto'')) in
      find_proto_files fs self =
        Inr (map (\<lambda>name. relative_to root (path_join d name))
               (filter (\<lambda>name. \<not> ishidden name \<and> suffix ''.proto'' name)
                  (glob_listdir fs d False)))
    \<and> (s \<noteq> [] \<and> last s \<noteq> CHR ''/'' \<longrightarrow> d = s)
    \<and> (\<forall>fs'. scandir fs' (if d \<noteq> [] then d else ''.'')
              = scandir fs (if d \<noteq> [] then d else ''.'') \<longrightarrow>
            find_proto_files fs' self = find_proto_files fs self)"
proof -
  let ?d = "fst (path_split (path_join s ''*.proto''))"
  have found: "find_proto_files fs' self =
      Inr (map (\<lambda>name. relative_to root (path_join ?d name))
             (filter (\<lambda>name. \<not> ishidden name \<and> suffix ''.proto'' name)
                (glob_listdir fs' ?d False)))" for fs'
    using assms glob_proto_pattern [of s fs']
    by (simp add: find_proto_files_def glob_proto_files_def and_then_def comp_def)
  have same: "find_proto_files fs' self = find_proto_files fs self"
    if "scandir fs' (if ?d \<noteq> [] then ?d else ''.'')
        = scandir fs (if ?d \<noteq> [] then ?d else ''.'')" for fs'
    using that by (simp only: found glob_listdir_files)
  have dir: "s \<noteq> [] \<and> last s \<noteq> CHR ''/'' \<longrightarrow> ?d = s"
    using path_split_pattern_dir by blast
  show ?thesis
    unfolding Let_def using found [of fs] same dir by blast
qed

theorem find_proto_files_no_recursion_witness:
  "\<not> has_magic ''a/b/c''
   \<and> fst (path_split (path_join ''a/b/c'' ''*.proto'')) = ''a/b/c''
   \<and> glob_listdir example_fs ''a/b/c'' False = [''d'', ''top.proto'']
   \<and> find_proto_files example_fs
        (example_command\<lparr>proto_root_path := Some ''a/b'', recurse := Some False\<rparr>)
      = Inr [''c/top.proto'']"
proof -
  let ?c = "example_command\<lparr>proto_root_path := Some ''a/b'', recurse := Some False\<rparr>"
  have src: "source_dir ?c = Some ''a/b/c''" by (simp add: example_command_def)
  have nm: "\<not> has_magic ''a/b/c''" by code_simp
  have rec: "recurse ?c \<noteq> Some True" by simp
  have root: "proto_root_path ?c = Some ''a/b''" by simp
  have d: "fst (path_split (path_join ''a/b/c'' ''*.proto'')) = ''a/b/c''" by code_simp
  have ls: "glob_listdir example_fs ''a/b/c'' False = [''d'', ''top.proto'']" by code_simp
  have rel: "map (\<lambda>name. relative_to ''a/b'' (path_join ''a/b/c'' name))
      (filter (\<lambda>name. \<not> ishidden name \<and> suffix ''.proto'' name) [''d'', ''top.proto''])
      = [''c/top.proto'']"
    by code_simp
  have "find_proto_files example_fs ?c =
      Inr (map (\<lambda>name. relative_to ''a/b'' (path_join ''a/b/c'' name))
             (filter (\<lambda>name. \<not> ishidden name \<and> suffix ''.proto'' name)
                (glob_listdir example_fs ''a/b/c'' False)))"
    using find_proto_files_no_recursion [OF src nm rec root, of example_fs]
    unfolding Let_def d by blast
  then have res: "find_proto_files example_fs ?c = Inr [''c/top.proto'']"
    unfolding ls rel .
  show ?thesis
    by (intro conjI) (rule nm, rule d, rule ls, rule res)
qed

text \<open>
  Claim C8 (with the recurse flag off, only the \<^verbatim>\<open>.proto\<close> files that are direct
  children of the source directory are returned) is not what the code does on every
  source directory. The source directory is handed to \<^verbatim>\<open>glob.glob\<close> as part of
  the pattern and is not escaped: for the source directory \<^verbatim>\<open>r/a*\<close>, which is
  empty, the pattern \<^verbatim>\<open>r/a*/*.proto\<close> also matches in the sibling directory
  \<^verbatim>\<open>r/ab\<close>, and \<open>find_proto_files\<close> returns a file that is not a child of the
  source directory. Nor does \<^verbatim>\<open>glob.glob\<close> tell files from directories: a
  directory named \<^verbatim>\<open>pkg.proto\<close> in the source directory is returned as well.
\<close>

theorem find_proto_files_unescaped_source_dir:
  "source_dir wildcard_command = Some ''r/a*''
   \<and> recurse wildcard_command = Some False
   \<and> isdir wildcard_fs ''r/a*''
   \<and> scandir wildcard_fs ''r/a*'' = Some []
   \<and> find_proto_files wildcard_fs (wildcard_command\<lparr>proto_root_path := Some ''r''\<rparr>)
      = Inr [''ab/x.proto'']
   \<and> finalize_options wildcard_fs example_env wildcard_command
      = Inr (\<lparr>source_dir = Some ''r/a*'', output_dir = ''.'', proto_root_path = Some ''r'',
              include_dirs = None, proto_paths = [''r''], extra_proto_paths = [],
              proto_files = Some [''ab/x.proto''], recurse = Some False, protoc = None\<rparr>,
             [Announce ''using computed proto_root_path: r''])
   \<and> recurse pkg_command = Some False
   \<and> isdir pkg_fs ''s/pkg.proto''
   \<and> find_proto_files pkg_fs pkg_command = Inr [''pkg.proto'']"
proof (intro conjI)
  show "source_dir wildcard_command = Some ''r/a*''"
    by (simp add: wildcard_command_def)
  show "recurse wildcard_command = Some False"
    by (simp add: wildcard_command_def)
  show "isdir wildcard_fs ''r/a*''"
    by code_simp
  show "scandir wildcard_fs ''r/a*'' = Some []"
    by code_simp
  show "find_proto_files wildcard_fs (wildcard_command\<lparr>proto_root_path := Some ''r''\<rparr>)
      = Inr [''ab/x.proto'']"
    by code_simp
  show "finalize_options wildcard_fs example_env wildcard_command
      = Inr (\<lparr>source_dir = Some ''r/a*'', output_dir = ''.'', proto_root_path = Some ''r'',
              include_dirs = None, proto_paths = [''r''], extra_proto_paths = [],
              proto_files = Some [''ab/x.proto''], recurse = Some False, protoc = None\<rparr>,
             [Announce ''using computed proto_root_path: r''])"
    by code_simp
  show "recurse pkg_command = Some False"
    by (simp add: pkg_command_def)
  show "isdir pkg_fs ''s/pkg.proto''"
    by code_simp
  show "find_proto_files pkg_fs pkg_command = Inr [''pkg.proto'']"
    by code_simp
qed

text \<open>
  Claim C2 is not what the code does: the second pattern goes to \<^verbatim>\<open>glob.glob\<close>
  without \<^verbatim>\<open>recursive=True\<close>, so \<^verbatim>\<open>**\<close> stands for exactly one directory level.
  With the recurse flag at its default, \<open>finalize_options\<close> on the example tree finds
  \<^verbatim>\<open>a/b/c/top.proto\<close> and \<^verbatim>\<open>a/b/c/d/foo.proto\<close> but not
  \<^verbatim>\<open>a/b/c/d/e/deep.proto\<close>, two levels below the source directory.
\<close>

theorem finalize_options_recurse_misses_deep_file:
  "scandir example_fs ''a/b/c/d/e'' = Some [''deep.proto'']
   \<and> lexists example_fs ''a/b/c/d/e/deep.proto''
   \<and> finalize_options example_fs example_env example_command
      = Inr (\<lparr>source_dir = Some ''a/b/c'', output_dir = ''.'', proto_root_path = Some ''a/b'',
              include_dirs = None, proto_paths = [''a/b'', ''x/y''], extra_proto_paths = [],
              proto_files = Some [''c/top.proto'', ''c/d/foo.proto''],
              recurse = Some True, protoc = None\<rparr>,
             [Announce ''using computed proto_root_path: a/b''])"
proof (intro conjI)
  show "scandir example_fs ''a/b/c/d/e'' = Some [''deep.proto'']"
    by code_simp
  show "lexists example_fs ''a/b/c/d/e/deep.proto''"
    by code_simp
  show "finalize_options example_fs example_env example_command
      = Inr (\<lparr>source_dir = Some ''a/b/c'', output_dir = ''.'', proto_root_path = Some ''a/b'',
              include_dirs = None, proto_paths = [''a/b'', ''x/y''], extra_proto_paths = [],
              proto_files = Some [''c/top.proto'', ''c/d/foo.proto''],
              recurse = Some True, protoc = None\<rparr>,
             [Announce ''using computed proto_root_path: a/b''])"
    by code_simp
qed

text \<open>
  Claim C3 holds on its example (the candidates \<^verbatim>\<open>a/b\<close> and \<^verbatim>\<open>x/y\<close>, the source
  directory \<^verbatim>\<open>a/b/c\<close>: the root is \<^verbatim>\<open>a/b\<close> and \<^verbatim>\<open>a/b/c/d/foo.proto\<close> becomes
  \<^verbatim>\<open>c/d/foo.proto\<close>) but not for every discovered file. The candidate \<^verbatim>\<open>a/b\<close> is a
  string prefix of the sibling source directory \<^verbatim>\<open>a/bc\<close>; it becomes the root, the check
  of line 99 passes, and the discovered \<^verbatim>\<open>a/bc/x.proto\<close>, which does not start with
  \<^verbatim>\<open>a/b/\<close>, is rewritten to the empty string.
\<close>

theorem finalize_options_sibling_directory_empty_name:
  "compute_proto_root_path example_command = Inr ''a/b''
   \<and> relative_to ''a/b'' ''a/b/c/d/foo.proto'' = ''c/d/foo.proto''
   \<and> glob_proto_files example_fs
        (example_command\<lparr>source_dir := Some ''a/bc'', proto_paths := [''a/b''],
           recurse := Some True\<rparr>)
      = Inr [''a/bc/x.proto'']
   \<and> finalize_options example_fs example_env
        (example_command\<lparr>source_dir := Some ''a/bc'', proto_paths := [''a/b'']\<rparr>)
      = Inr (\<lparr>source_dir = Some ''a/bc'', output_dir = ''.'', proto_root_path = Some ''a/b'',
              include_dirs = None, proto_paths = [''a/b''], extra_proto_paths = [],
              proto_files = Some [[]], recurse = Some True, protoc = None\<rparr>,
             [Announce ''using computed proto_root_path: a/b''])"
proof (intro conjI)
  show "compute_proto_root_path example_command = Inr ''a/b''"
    by code_simp
  show "relative_to ''a/b'' ''a/b/c/d/foo.proto'' = ''c/d/foo.proto''"
    by code_simp
  show "glob_proto_files example_fs
        (example_command\<lparr>source_dir := Some ''a/bc'', proto_paths := [''a/b''],
           recurse := Some True\<rparr>)
      = Inr [''a/bc/x.proto'']"
    by code_simp
  show "finalize_options example_fs example_env
        (example_command\<lparr>source_dir := Some ''a/bc'', proto_paths := [''a/b'']\<rparr>)
      = Inr (\<lparr>source_dir = Some ''a/bc'', output_dir = ''.'', proto_root_path = Some ''a/b'',
              include_dirs = None, proto_paths = [''a/b''], extra_proto_paths = [],
              proto_files = Some [[]], recurse = Some True, protoc = None\<rparr>,
             [Announce ''using computed proto_root_path: a/b''])"
    by code_simp
qed

end
